theory Spec2Isabelle
  imports Complex_Main "HOL-Library.AList" "HOL-Library.Multiset" "HOL-Library.Log_Nat"
begin

section \<open>The RFM scorer of the upload handler\<close>

text \<open>
  The theory embeds the two pure functions of the upload handler, \<^verbatim>\<open>calculateRFM\<close> and
  \<^verbatim>\<open>getSegmentName\<close>, with the closure \<^verbatim>\<open>getQuantile\<close> defined inside the first.

  What belongs to the JavaScript runtime and not to the repository is a parameter:
  \<^item> \<open>now\<close>: the time value of \<^verbatim>\<open>new Date()\<close>, in milliseconds since the epoch;
  \<^item> \<open>newDate\<close>: the time value of \<^verbatim>\<open>new Date(s)\<close> for a string \<open>s\<close>, \<open>None\<close> when the
    string does not parse (the Invalid Date, whose time value is NaN);
  \<^item> \<open>toISOString\<close>: \<^verbatim>\<open>Date.prototype.toISOString\<close> on a valid time value.

  Numbers: counts, scores, indices and time values are integers far below \<open>2^53\<close>, on which
  the arithmetic of the scorer is exact, and are modelled by \<open>int\<close>. Transaction amounts,
  their totals and averages are IEEE-754 binary64 numbers and are modelled as such, with
  the rounding of every sum and quotient, the infinities and NaN.
\<close>

subsection \<open>Binary64 numbers\<close>

text \<open>
  A number is a finite value, an infinity or NaN. \<open>Finite q\<close> stands for the binary64 value
  \<open>q\<close>; the operations below return such values only. The two zeros are one value,
  \<open>Finite 0\<close>: the operator \<^verbatim>\<open>===\<close> and the comparator of \<^verbatim>\<open>sort\<close> do not tell them apart, the
  scorer never divides by an amount, and a sum or a quotient depends on the sign of a zero
  operand only in the sign of a zero result.
\<close>

datatype number = Finite rat | PosInfinity | NegInfinity | NaN

text \<open>The exponent \<open>e\<close> of a positive rational: \<open>2^e \<le> x < 2^(e + 1)\<close>.\<close>

definition ilog2 :: "rat \<Rightarrow> int" where
  "ilog2 x =
     (let (a, b) = quotient_of x; d = bitlen a - bitlen b
      in if 2 powi d \<le> x then d else d - 1)"

definition round_half_even :: "rat \<Rightarrow> int" where
  "round_half_even m =
     (let f = \<lfloor>m\<rfloor>; r = m - of_int f
      in if r < 1 / 2 then f else if r > 1 / 2 then f + 1 else if even f then f else f + 1)"

text \<open>
  Rounding to nearest, ties to even: the significand has 53 bits, the exponent of a normal
  number is at least \<open>-1022\<close>, below it the spacing stays \<open>2^-1074\<close> (subnormal numbers), and
  a result of \<open>2^1024\<close> or more is an infinity.
\<close>

definition round64 :: "rat \<Rightarrow> number" where
  "round64 x =
     (if x = 0 then Finite 0
      else
        let a = \<bar>x\<bar>;
            e = max (ilog2 a) (- 1022);
            q = e - 52;
            n = round_half_even (a / 2 powi q);
            y = of_int n * 2 powi q
        in if y \<ge> 2 powi 1024 then (if x > 0 then PosInfinity else NegInfinity)
           else Finite (if x > 0 then y else - y))"

text \<open>The operator \<^verbatim>\<open>+\<close> on numbers.\<close>

fun fadd :: "number \<Rightarrow> number \<Rightarrow> number" where
  "fadd NaN _ = NaN"
| "fadd _ NaN = NaN"
| "fadd PosInfinity NegInfinity = NaN"
| "fadd NegInfinity PosInfinity = NaN"
| "fadd PosInfinity _ = PosInfinity"
| "fadd _ PosInfinity = PosInfinity"
| "fadd NegInfinity _ = NegInfinity"
| "fadd _ NegInfinity = NegInfinity"
| "fadd (Finite a) (Finite b) = round64 (a + b)"

text \<open>The operator \<^verbatim>\<open>-\<close>: \<open>a - b\<close> is \<open>a + (-b)\<close>.\<close>

fun fneg :: "number \<Rightarrow> number" where
  "fneg (Finite a) = Finite (- a)"
| "fneg PosInfinity = NegInfinity"
| "fneg NegInfinity = PosInfinity"
| "fneg NaN = NaN"

definition fsub :: "number \<Rightarrow> number \<Rightarrow> number" where
  "fsub a b = fadd a (fneg b)"

text \<open>
  The operator \<^verbatim>\<open>/\<close> with an integer divisor, as in \<^verbatim>\<open>customer.monetary / customer.frequency\<close>:
  the divisor is a count, exact as a number, and its zero is the positive zero.
\<close>

fun fdiv :: "number \<Rightarrow> int \<Rightarrow> number" where
  "fdiv NaN n = NaN"
| "fdiv PosInfinity n = (if n < 0 then NegInfinity else PosInfinity)"
| "fdiv NegInfinity n = (if n < 0 then PosInfinity else NegInfinity)"
| "fdiv (Finite a) n =
     (if n = 0 then (if a > 0 then PosInfinity else if a < 0 then NegInfinity else NaN)
      else round64 (a / of_int n))"

text \<open>The operator \<^verbatim>\<open>===\<close> on numbers: NaN is equal to nothing, itself included.\<close>

fun strict_eq :: "number \<Rightarrow> number \<Rightarrow> bool" where
  "strict_eq NaN _ = False"
| "strict_eq _ NaN = False"
| "strict_eq a b = (a = b)"

text \<open>The test \<^verbatim>\<open>v > 0\<close> on a number.\<close>

fun is_positive :: "number \<Rightarrow> bool" where
  "is_positive (Finite a) = (a > 0)"
| "is_positive PosInfinity = True"
| "is_positive _ = False"

subsection \<open>Data\<close>

record Transaction =
  customer_id :: string
  customer_name :: "string option"
  transaction_date :: string
  transaction_amount :: number

text \<open>The value type of the \<^verbatim>\<open>customerData\<close> map (an anonymous object type in the source).\<close>

record CustomerData =
  transactions :: int
  totalSpend :: number
  lastDate :: "int option"

text \<open>
  An element of the \<^verbatim>\<open>customers\<close> array (anonymous in the source). Its fields
  \<^verbatim>\<open>customer_id\<close> and \<^verbatim>\<open>lastDate\<close> are prefixed, the names being taken by the records above.
\<close>

record Customer =
  c_customer_id :: string
  recency :: int
  frequency :: int
  monetary :: number
  c_lastDate :: int

record RFMScore =
  s_customer_id :: string
  recency_score :: int
  frequency_score :: int
  monetary_score :: int
  total_transactions :: int
  total_spend :: number
  avg_spend :: number
  last_transaction_date :: string
  segment_name :: string

datatype error = RangeError

subsection \<open>Aggregation per customer (lines 38 to 55)\<close>

text \<open>
  \<^verbatim>\<open>transactionDate > existing.lastDate\<close> compares the two time values as numbers; a
  comparison with NaN is false.
\<close>

fun date_gt :: "int option \<Rightarrow> int option \<Rightarrow> bool" where
  "date_gt (Some a) (Some b) = (a > b)"
| "date_gt _ _ = False"

text \<open>
  A JavaScript \<^verbatim>\<open>Map\<close> keeps its keys in insertion order, and setting an existing key keeps
  the key's position: an association list with \<^const>\<open>AList.update\<close>. The body of the
  \<^verbatim>\<open>forEach\<close> callback is one step; mutating the object \<^verbatim>\<open>existing\<close> in place is the update of
  its entry.
\<close>

definition forEach_step ::
  "(string \<Rightarrow> int option) \<Rightarrow> (string \<times> CustomerData) list \<Rightarrow> Transaction
     \<Rightarrow> (string \<times> CustomerData) list" where
  "forEach_step newDate customerData t =
     (let transactionDate = newDate (transaction_date t) in
      case map_of customerData (customer_id t) of
        Some existing \<Rightarrow>
          AList.update (customer_id t)
            \<lparr> transactions = transactions existing + 1,
              totalSpend = fadd (totalSpend existing) (transaction_amount t),
              lastDate = (if date_gt transactionDate (lastDate existing)
                          then transactionDate else lastDate existing) \<rparr>
            customerData
      | None \<Rightarrow>
          AList.update (customer_id t)
            \<lparr> transactions = 1,
              totalSpend = transaction_amount t,
              lastDate = transactionDate \<rparr>
            customerData)"

definition customerData_of ::
  "(string \<Rightarrow> int option) \<Rightarrow> Transaction list \<Rightarrow> (string \<times> CustomerData) list" where
  "customerData_of newDate ts = foldl (forEach_step newDate) [] ts"

subsection \<open>The customers array (lines 57 to 64)\<close>

text \<open>
  \<^verbatim>\<open>Math.floor((now - time) / 86400000)\<close> is the floored integer quotient, which is \<open>div\<close>
  on \<open>int\<close> for either sign.

  When \<^verbatim>\<open>lastDate\<close> is the Invalid Date, the source computes NaN here and goes on; the final
  \<^verbatim>\<open>map\<close> then calls \<^verbatim>\<open>toISOString()\<close> on every customer's \<^verbatim>\<open>lastDate\<close> (line 92), which
  throws \<^verbatim>\<open>RangeError\<close> on the Invalid Date. Nothing computed in between is observable, so
  the model raises the error where the date is first read as a number, and a recency is
  always an integer.
\<close>

fun toCustomer :: "int \<Rightarrow> string \<times> CustomerData \<Rightarrow> error + Customer" where
  "toCustomer now (customerId, data) =
     (case lastDate data of
        None \<Rightarrow> Inl RangeError
      | Some time \<Rightarrow>
          Inr \<lparr> c_customer_id = customerId,
                recency = (now - time) div (1000 * 60 * 60 * 24),
                frequency = transactions data,
                monetary = totalSpend data,
                c_lastDate = time \<rparr>)"

fun mapM :: "('a \<Rightarrow> error + 'b) \<Rightarrow> 'a list \<Rightarrow> error + 'b list" where
  "mapM f [] = Inr []"
| "mapM f (x # xs) =
     (case f x of
        Inl e \<Rightarrow> Inl e
      | Inr y \<Rightarrow> (case mapM f xs of Inl e \<Rightarrow> Inl e | Inr ys \<Rightarrow> Inr (y # ys)))"

definition customers ::
  "int \<Rightarrow> (string \<Rightarrow> int option) \<Rightarrow> Transaction list \<Rightarrow> error + Customer list" where
  "customers now newDate ts = mapM (toCustomer now) (customerData_of newDate ts)"

subsection \<open>Quantiles (lines 66 to 77)\<close>

text \<open>\<^verbatim>\<open>Array.prototype.indexOf\<close>: the first index holding the value, \<open>-1\<close> when there is none.\<close>

fun indexOf :: "'a list \<Rightarrow> 'a \<Rightarrow> int" where
  "indexOf [] v = - 1"
| "indexOf (x # xs) v =
     (if x = v then 0 else (let i = indexOf xs v in if i < 0 then - 1 else i + 1))"

text \<open>
  The quotient \<^verbatim>\<open>index / values.length\<close> of two integers below \<open>2^32\<close> compares with
  \<open>0.25\<close>, \<open>0.5\<close> and \<open>0.75\<close> as the exact quotient does. On the empty array the index is
  \<open>-1\<close> and the quotient is \<^verbatim>\<open>-Infinity\<close>, below every threshold.
\<close>

definition getQuantile :: "'a list \<Rightarrow> 'a \<Rightarrow> int" where
  "getQuantile values value =
     (let index = indexOf values value;
          percentile = (of_int index :: rat) / of_nat (length values)
      in if length values = 0 then 1
         else if percentile \<le> 25 / 100 then 1
         else if percentile \<le> 5 / 10 then 2
         else if percentile \<le> 75 / 100 then 3
         else 4)"

text \<open>
  The closure is applied to the arrays of recencies and of frequencies, which are integers
  and compare under \<^verbatim>\<open>===\<close> as they are equal, and to the array of totals, on which \<^verbatim>\<open>===\<close> is
  \<^const>\<open>strict_eq\<close>: a NaN total is not found in the array.
\<close>

fun indexOf_number :: "number list \<Rightarrow> number \<Rightarrow> int" where
  "indexOf_number [] v = - 1"
| "indexOf_number (x # xs) v =
     (if strict_eq x v then 0
      else (let i = indexOf_number xs v in if i < 0 then - 1 else i + 1))"

definition getQuantile_number :: "number list \<Rightarrow> number \<Rightarrow> int" where
  "getQuantile_number values value =
     (let index = indexOf_number values value;
          percentile = (of_int index :: rat) / of_nat (length values)
      in if length values = 0 then 1
         else if percentile \<le> 25 / 100 then 1
         else if percentile \<le> 5 / 10 then 2
         else if percentile \<le> 75 / 100 then 3
         else 4)"

subsection \<open>Sorting the totals (line 68)\<close>

text \<open>
  \<^verbatim>\<open>sort((a, b) => a - b)\<close> on numbers. The comparator returns \<open>a - b\<close>; \<open>a\<close> goes after \<open>b\<close>
  when the result is positive, and a NaN result counts as zero. The language leaves the
  algorithm open and asks for a stable sort: the model is the stable insertion sort. For a
  consistent comparator, that is when no value is NaN, every algorithm gives the same
  array; with a NaN among the values the order is up to the engine.
\<close>

fun insortNumber :: "number \<Rightarrow> number list \<Rightarrow> number list" where
  "insortNumber x [] = [x]"
| "insortNumber x (y # ys) =
     (if is_positive (fsub x y) then y # insortNumber x ys else x # y # ys)"

definition sortNumbers :: "number list \<Rightarrow> number list" where
  "sortNumbers xs = foldr insortNumber xs []"

subsection \<open>Segment names (lines 98 to 112)\<close>

definition getSegmentName :: "int \<Rightarrow> int \<Rightarrow> int \<Rightarrow> string" where
  "getSegmentName r f m =
     (let score = r + f + m in
      if r \<ge> 4 \<and> f \<ge> 4 \<and> m \<ge> 4 then ''Champions''
      else if r \<ge> 3 \<and> f \<ge> 3 \<and> m \<ge> 3 then ''Loyal Customers''
      else if r \<ge> 4 \<and> f \<le> 2 then ''New Customers''
      else if r \<ge> 3 \<and> f \<ge> 1 \<and> m \<ge> 2 then ''Potential Loyalists''
      else if r \<ge> 2 \<and> r \<le> 3 \<and> f \<ge> 2 \<and> m \<ge> 2 then ''Customers Needing Attention''
      else if r \<le> 2 \<and> f \<ge> 3 then ''At Risk''
      else if r \<le> 2 \<and> f \<le> 2 \<and> m \<ge> 3 then ''Big Spenders at Risk''
      else if r \<le> 1 \<and> f \<le> 2 then ''Lost Customers''
      else if score \<ge> 9 then ''High Value''
      else if score \<ge> 6 then ''Medium Value''
      else ''Low Value'')"

subsection \<open>The scorer (lines 31 to 96)\<close>

text \<open>
  The callback of the final \<^verbatim>\<open>map\<close> (lines 79 to 95), and the scorer. The arrays of
  recencies and of frequencies are sorted with \<^verbatim>\<open>sort((a, b) => a - b)\<close>, ascending on
  integers, which is \<^const>\<open>sort\<close>; the array of totals is sorted by \<^const>\<open>sortNumbers\<close>.
\<close>

definition scoreCustomer ::
  "(int \<Rightarrow> string) \<Rightarrow> int list \<Rightarrow> int list \<Rightarrow> number list \<Rightarrow> Customer \<Rightarrow> RFMScore"
  where
  "scoreCustomer toISOString recencyValues frequencyValues monetaryValues customer =
     (let r = 5 - getQuantile recencyValues (recency customer);
          f = getQuantile frequencyValues (frequency customer);
          m = getQuantile_number monetaryValues (monetary customer)
      in \<lparr> s_customer_id = c_customer_id customer,
           recency_score = r,
           frequency_score = f,
           monetary_score = m,
           total_transactions = frequency customer,
           total_spend = monetary customer,
           avg_spend = fdiv (monetary customer) (frequency customer),
           last_transaction_date =
             takeWhile (\<lambda>c. c \<noteq> CHR ''T'') (toISOString (c_lastDate customer)),
           segment_name = getSegmentName r f m \<rparr>)"

definition calculateRFM ::
  "int \<Rightarrow> (string \<Rightarrow> int option) \<Rightarrow> (int \<Rightarrow> string) \<Rightarrow> Transaction list
     \<Rightarrow> error + RFMScore list" where
  "calculateRFM now newDate toISOString ts =
     (case customers now newDate ts of
        Inl e \<Rightarrow> Inl e
      | Inr cs \<Rightarrow>
          (let recencyValues = sort (map recency cs);
               frequencyValues = sort (map frequency cs);
               monetaryValues = sortNumbers (map monetary cs)
           in Inr (map (scoreCustomer toISOString recencyValues frequencyValues monetaryValues)
                    cs)))"

section \<open>Notions used to state the properties\<close>

subsection \<open>The rule chain of the segments\<close>

text \<open>
  The rule chain as the specification words it: an ordered list of predicates and labels,
  the first match winning, and the bucket by the sum of the scores when no rule matches.
\<close>

definition segment_rules :: "((int \<times> int \<times> int \<Rightarrow> bool) \<times> string) list" where
  "segment_rules =
     [ (\<lambda>(r, f, m). r \<ge> 4 \<and> f \<ge> 4 \<and> m \<ge> 4, ''Champions''),
       (\<lambda>(r, f, m). r \<ge> 3 \<and> f \<ge> 3 \<and> m \<ge> 3, ''Loyal Customers''),
       (\<lambda>(r, f, m). r \<ge> 4 \<and> f \<le> 2, ''New Customers''),
       (\<lambda>(r, f, m). r \<ge> 3 \<and> f \<ge> 1 \<and> m \<ge> 2, ''Potential Loyalists''),
       (\<lambda>(r, f, m). 2 \<le> r \<and> r \<le> 3 \<and> f \<ge> 2 \<and> m \<ge> 2, ''Customers Needing Attention''),
       (\<lambda>(r, f, m). r \<le> 2 \<and> f \<ge> 3, ''At Risk''),
       (\<lambda>(r, f, m). r \<le> 2 \<and> f \<le> 2 \<and> m \<ge> 3, ''Big Spenders at Risk''),
       (\<lambda>(r, f, m). r \<le> 1 \<and> f \<le> 2, ''Lost Customers'') ]"

definition sum_bucket :: "int \<times> int \<times> int \<Rightarrow> string" where
  "sum_bucket = (\<lambda>(r, f, m).
     if r + f + m \<ge> 9 then ''High Value''
     else if r + f + m \<ge> 6 then ''Medium Value''
     else ''Low Value'')"

fun first_match :: "(('a \<Rightarrow> bool) \<times> 'b) list \<Rightarrow> ('a \<Rightarrow> 'b) \<Rightarrow> 'a \<Rightarrow> 'b" where
  "first_match [] dflt x = dflt x"
| "first_match ((p, l) # rules) dflt x = (if p x then l else first_match rules dflt x)"

subsection \<open>Transactions of a customer, valid dates\<close>

definition transactions_of :: "string \<Rightarrow> Transaction list \<Rightarrow> Transaction list" where
  "transactions_of c ts = filter (\<lambda>t. customer_id t = c) ts"

text \<open>Every \<^verbatim>\<open>transaction_date\<close> of the list parses: \<^verbatim>\<open>new Date\<close> gives no Invalid Date.\<close>

definition all_dates_valid :: "(string \<Rightarrow> int option) \<Rightarrow> Transaction list \<Rightarrow> bool" where
  "all_dates_valid newDate ts = list_all (\<lambda>t. newDate (transaction_date t) \<noteq> None) ts"

text \<open>The time values of the transactions of a list whose dates parse.\<close>

definition times_of :: "(string \<Rightarrow> int option) \<Rightarrow> Transaction list \<Rightarrow> int set" where
  "times_of newDate ts = set (List.map_filter (\<lambda>t. newDate (transaction_date t)) ts)"

subsection \<open>Sizes of the quartile groups\<close>

text \<open>
  The customers of a cohort whose metric falls in quartile \<open>q\<close>: \<open>vs\<close> lists the metric
  customer by customer, and each value is looked up in the sorted copy, as the scorer does.
\<close>

definition quartile_count :: "'a::linorder list \<Rightarrow> int \<Rightarrow> nat" where
  "quartile_count vs q = length (filter (\<lambda>v. getQuantile (sort vs) v = q) vs)"

text \<open>The quartile of the rank \<open>i\<close> among \<open>n\<close> values, with the thresholds as integer quotients.\<close>

definition quartile_of_rank :: "nat \<Rightarrow> nat \<Rightarrow> int" where
  "quartile_of_rank i n =
     (if i \<le> n div 4 then 1 else if i \<le> n div 2 then 2 else if i \<le> (3 * n) div 4 then 3 else 4)"

text \<open>The number of output records whose score (one of the three) is \<open>q\<close>.\<close>

definition score_count :: "(RFMScore \<Rightarrow> int) \<Rightarrow> RFMScore list \<Rightarrow> int \<Rightarrow> nat" where
  "score_count score out q = length (filter (\<lambda>s. score s = q) out)"

subsection \<open>Running sums and exact sums\<close>

text \<open>
  The total of a customer is the sum of the amounts from left to right, each addition
  rounded: the first amount is stored as it is and the later ones are added to it. (The
  map has no entry for a customer without transactions, and the sum of no amounts is not
  used.)
\<close>

fun running_sum :: "number list \<Rightarrow> number" where
  "running_sum [] = Finite 0"
| "running_sum (a # as) = foldl fadd a as"

fun value_of :: "number \<Rightarrow> rat" where
  "value_of (Finite q) = q"
| "value_of _ = 0"

text \<open>
  No addition of a running sum rounds: the amounts are finite, and every sum of the
  amounts so far is a binary64 value.
\<close>

fun exact_from :: "rat \<Rightarrow> number list \<Rightarrow> bool" where
  "exact_from s [] = True"
| "exact_from s (Finite q # as) = (round64 (s + q) = Finite (s + q) \<and> exact_from (s + q) as)"
| "exact_from s (_ # as) = False"

fun sums_exact :: "number list \<Rightarrow> bool" where
  "sums_exact [] = True"
| "sums_exact (Finite q # as) = exact_from q as"
| "sums_exact (_ # as) = False"

subsection \<open>Binary64 values and their order\<close>

text \<open>
  A number of the model is a binary64 value when rounding leaves it as it is. Every
  JavaScript number is one; the condition is on the values of the model only.
\<close>

fun is_binary64 :: "number \<Rightarrow> bool" where
  "is_binary64 (Finite q) = (round64 q = Finite q)"
| "is_binary64 _ = True"

text \<open>Every finite binary64 value is an integer multiple of the least subnormal number.\<close>

definition grid_unit :: rat where
  "grid_unit = 2 powi (- 1074)"

definition on_grid :: "rat \<Rightarrow> bool" where
  "on_grid y \<longleftrightarrow> (\<exists>k::int. y = of_int k * grid_unit)"

fun grid_ok :: "number \<Rightarrow> bool" where
  "grid_ok (Finite q) = on_grid q"
| "grid_ok _ = True"

text \<open>
  An order on numbers, for the proofs: on values other than NaN it is the order of the
  numbers, and NaN is put below everything.
\<close>

fun number_le :: "number \<Rightarrow> number \<Rightarrow> bool" where
  "number_le NaN _ = True"
| "number_le _ NaN = False"
| "number_le NegInfinity _ = True"
| "number_le _ NegInfinity = False"
| "number_le _ PosInfinity = True"
| "number_le PosInfinity _ = False"
| "number_le (Finite a) (Finite b) = (a \<le> b)"

instantiation number :: linorder
begin

definition less_eq_number :: "number \<Rightarrow> number \<Rightarrow> bool" where
  "less_eq_number x y \<longleftrightarrow> number_le x y"

definition less_number :: "number \<Rightarrow> number \<Rightarrow> bool" where
  "less_number x y \<longleftrightarrow> number_le x y \<and> \<not> number_le y x"

instance
proof
  fix x y z :: number
  show "(x < y) = (x \<le> y \<and> \<not> y \<le> x)"
    by (simp add: less_number_def less_eq_number_def)
  show "x \<le> x"
    by (cases x) (simp_all add: less_eq_number_def)
  show "x \<le> y \<Longrightarrow> y \<le> z \<Longrightarrow> x \<le> z"
    by (cases x; cases y; cases z) (simp_all add: less_eq_number_def)
  show "x \<le> y \<Longrightarrow> y \<le> x \<Longrightarrow> x = y"
    by (cases x; cases y) (simp_all add: less_eq_number_def)
  show "x \<le> y \<or> y \<le> x"
    by (cases x; cases y) (auto simp: less_eq_number_def)
qed

end

section \<open>Examples\<close>

text \<open>
  A runtime for the examples: the dates below as \<^verbatim>\<open>new Date\<close> and \<^verbatim>\<open>toISOString\<close> map them,
  every other string taken as unparseable, and the clock at 2024-06-02T00:00:00Z.
\<close>

definition ex_newDate :: "string \<Rightarrow> int option" where
  "ex_newDate s =
     (if s = ''2024-01-01'' then Some 1704067200000
      else if s = ''2024-02-01'' then Some 1706745600000
      else if s = ''2024-03-01'' then Some 1709251200000
      else if s = ''2024-06-01'' then Some 1717200000000
      else None)"

definition ex_toISOString :: "int \<Rightarrow> string" where
  "ex_toISOString ms =
     (if ms = 1704067200000 then ''2024-01-01T00:00:00.000Z''
      else if ms = 1706745600000 then ''2024-02-01T00:00:00.000Z''
      else if ms = 1709251200000 then ''2024-03-01T00:00:00.000Z''
      else if ms = 1717200000000 then ''2024-06-01T00:00:00.000Z''
      else ''1970-01-01T00:00:00.000Z'')"

definition ex_now :: int where
  "ex_now = 1717286400000"

definition tx :: "string \<Rightarrow> string \<Rightarrow> number \<Rightarrow> Transaction" where
  "tx cid d a =
     \<lparr> customer_id = cid, customer_name = None, transaction_date = d, transaction_amount = a \<rparr>"

text \<open>The example of the specification: two customers, \<open>A\<close> with two transactions.\<close>

definition ex_transactions :: "Transaction list" where
  "ex_transactions =
     [tx ''A'' ''2024-01-01'' (Finite 100), tx ''A'' ''2024-02-01'' (Finite 200), tx ''B'' ''2024-06-01'' (Finite 50)]"

definition ex_customers :: "Customer list" where
  "ex_customers =
     [\<lparr> c_customer_id = ''A'', recency = 122, frequency = 2, monetary = Finite 300,
         c_lastDate = 1706745600000 \<rparr>,
      \<lparr> c_customer_id = ''B'', recency = 1, frequency = 1, monetary = Finite 50,
         c_lastDate = 1717200000000 \<rparr>]"

definition ex_score_A :: RFMScore where
  "ex_score_A =
     \<lparr> s_customer_id = ''A'', recency_score = 3, frequency_score = 2, monetary_score = 2,
       total_transactions = 2, total_spend = Finite 300, avg_spend = Finite 150,
       last_transaction_date = ''2024-02-01'', segment_name = ''Potential Loyalists'' \<rparr>"

definition ex_score_B :: RFMScore where
  "ex_score_B =
     \<lparr> s_customer_id = ''B'', recency_score = 4, frequency_score = 1, monetary_score = 1,
       total_transactions = 1, total_spend = Finite 50, avg_spend = Finite 50,
       last_transaction_date = ''2024-06-01'', segment_name = ''New Customers'' \<rparr>"

text \<open>Four customers with 1, 2, 3 and 4 transactions of amount 10, and four last dates.\<close>

definition ex_four :: "Transaction list" where
  "ex_four =
     [tx ''A'' ''2024-01-01'' (Finite 10),
      tx ''B'' ''2024-02-01'' (Finite 10), tx ''B'' ''2024-01-01'' (Finite 10),
      tx ''C'' ''2024-03-01'' (Finite 10), tx ''C'' ''2024-01-01'' (Finite 10), tx ''C'' ''2024-02-01'' (Finite 10),
      tx ''D'' ''2024-06-01'' (Finite 10), tx ''D'' ''2024-01-01'' (Finite 10), tx ''D'' ''2024-02-01'' (Finite 10),
      tx ''D'' ''2024-03-01'' (Finite 10)]"

definition ex_four_customers :: "Customer list" where
  "ex_four_customers =
     [\<lparr> c_customer_id = ''A'', recency = 153, frequency = 1, monetary = Finite 10,
         c_lastDate = 1704067200000 \<rparr>,
      \<lparr> c_customer_id = ''B'', recency = 122, frequency = 2, monetary = Finite 20,
         c_lastDate = 1706745600000 \<rparr>,
      \<lparr> c_customer_id = ''C'', recency = 93, frequency = 3, monetary = Finite 30,
         c_lastDate = 1709251200000 \<rparr>,
      \<lparr> c_customer_id = ''D'', recency = 1, frequency = 4, monetary = Finite 40,
         c_lastDate = 1717200000000 \<rparr>]"

definition ex_four_scores :: "RFMScore list" where
  "ex_four_scores =
     [\<lparr> s_customer_id = ''A'', recency_score = 2, frequency_score = 1, monetary_score = 1,
         total_transactions = 1, total_spend = Finite 10, avg_spend = Finite 10,
         last_transaction_date = ''2024-01-01'', segment_name = ''Low Value'' \<rparr>,
      \<lparr> s_customer_id = ''B'', recency_score = 3, frequency_score = 1, monetary_score = 1,
         total_transactions = 2, total_spend = Finite 20, avg_spend = Finite 10,
         last_transaction_date = ''2024-02-01'', segment_name = ''Low Value'' \<rparr>,
      \<lparr> s_customer_id = ''C'', recency_score = 4, frequency_score = 2, monetary_score = 2,
         total_transactions = 3, total_spend = Finite 30, avg_spend = Finite 10,
         last_transaction_date = ''2024-03-01'', segment_name = ''New Customers'' \<rparr>,
      \<lparr> s_customer_id = ''D'', recency_score = 4, frequency_score = 3, monetary_score = 3,
         total_transactions = 4, total_spend = Finite 40, avg_spend = Finite 10,
         last_transaction_date = ''2024-06-01'', segment_name = ''Loyal Customers'' \<rparr>]"

text \<open>Customers \<open>A\<close> and \<open>B\<close> tie on all three metrics.\<close>

definition ex_ties :: "Transaction list" where
  "ex_ties =
     [tx ''A'' ''2024-01-01'' (Finite 100), tx ''B'' ''2024-01-01'' (Finite 100), tx ''C'' ''2024-06-01'' (Finite 50)]"

definition ex_ties_customers :: "Customer list" where
  "ex_ties_customers =
     [\<lparr> c_customer_id = ''A'', recency = 153, frequency = 1, monetary = Finite 100,
         c_lastDate = 1704067200000 \<rparr>,
      \<lparr> c_customer_id = ''B'', recency = 153, frequency = 1, monetary = Finite 100,
         c_lastDate = 1704067200000 \<rparr>,
      \<lparr> c_customer_id = ''C'', recency = 1, frequency = 1, monetary = Finite 50,
         c_lastDate = 1717200000000 \<rparr>]"

definition ex_ties_scores :: "RFMScore list" where
  "ex_ties_scores =
     [\<lparr> s_customer_id = ''A'', recency_score = 3, frequency_score = 1, monetary_score = 2,
         total_transactions = 1, total_spend = Finite 100, avg_spend = Finite 100,
         last_transaction_date = ''2024-01-01'', segment_name = ''Potential Loyalists'' \<rparr>,
      \<lparr> s_customer_id = ''B'', recency_score = 3, frequency_score = 1, monetary_score = 2,
         total_transactions = 1, total_spend = Finite 100, avg_spend = Finite 100,
         last_transaction_date = ''2024-01-01'', segment_name = ''Potential Loyalists'' \<rparr>,
      \<lparr> s_customer_id = ''C'', recency_score = 4, frequency_score = 1, monetary_score = 1,
         total_transactions = 1, total_spend = Finite 50, avg_spend = Finite 50,
         last_transaction_date = ''2024-06-01'', segment_name = ''New Customers'' \<rparr>]"

text \<open>One customer, the later transaction listed first.\<close>

definition ex_single :: "Transaction list" where
  "ex_single = [tx ''A'' ''2024-02-01'' (Finite 200), tx ''A'' ''2024-01-01'' (Finite 100)]"

definition ex_single_score :: RFMScore where
  "ex_single_score =
     \<lparr> s_customer_id = ''A'', recency_score = 4, frequency_score = 1, monetary_score = 1,
       total_transactions = 2, total_spend = Finite 300, avg_spend = Finite 150,
       last_transaction_date = ''2024-02-01'', segment_name = ''New Customers'' \<rparr>"

text \<open>One customer, the first of whose two dates does not parse.\<close>

definition ex_unparsed :: "Transaction list" where
  "ex_unparsed = [tx ''A'' ''n/a'' (Finite 10), tx ''A'' ''2024-01-01'' (Finite 20)]"

text \<open>One customer with the amounts 50, 25 and 25: a total of 100 over 3 transactions.\<close>

definition ex_thirds :: "Transaction list" where
  "ex_thirds =
     [tx ''A'' ''2024-01-01'' (Finite 50), tx ''A'' ''2024-01-01'' (Finite 25),
      tx ''A'' ''2024-01-01'' (Finite 25)]"

text \<open>The binary64 value of \<^verbatim>\<open>100 / 3\<close>, which JavaScript prints as 33.333333333333336.\<close>

definition ex_third_of_100 :: number where
  "ex_third_of_100 = Finite (4691249611844267 / 140737488355328)"

definition ex_thirds_score :: RFMScore where
  "ex_thirds_score =
     \<lparr> s_customer_id = ''A'', recency_score = 4, frequency_score = 1, monetary_score = 1,
       total_transactions = 3, total_spend = Finite 100, avg_spend = ex_third_of_100,
       last_transaction_date = ''2024-01-01'', segment_name = ''New Customers'' \<rparr>"

text \<open>
  One customer with the amounts 0.1, 0.2 and 0.3, that is with the binary64 values of
  these literals, and the binary64 values that JavaScript prints as 0.6000000000000001
  and as 0.6.
\<close>

definition ex_tenths :: "Transaction list" where
  "ex_tenths =
     [tx ''A'' ''2024-01-01'' (round64 (1 / 10)), tx ''A'' ''2024-01-01'' (round64 (2 / 10)),
      tx ''A'' ''2024-01-01'' (round64 (3 / 10))]"

definition ex_above_six_tenths :: number where
  "ex_above_six_tenths = Finite (1351079888211149 / 2251799813685248)"

definition ex_six_tenths :: number where
  "ex_six_tenths = Finite (5404319552844595 / 9007199254740992)"

text \<open>
  Customer \<open>A\<close> with the total 5 and customer \<open>B\<close> with the amounts \<^verbatim>\<open>Infinity\<close> and
  \<^verbatim>\<open>-Infinity\<close>, whose total is NaN.
\<close>

definition ex_nan :: "Transaction list" where
  "ex_nan =
     [tx ''A'' ''2024-01-01'' (Finite 5), tx ''B'' ''2024-01-01'' PosInfinity,
      tx ''B'' ''2024-01-01'' NegInfinity]"

section \<open>Lemmas\<close>

subsection \<open>Binary64 arithmetic\<close>

lemma bitlen_powi:
  assumes "0 < a"
  shows "(2::rat) powi (bitlen a - 1) \<le> of_int a" and "of_int a < (2::rat) powi (bitlen a)"
proof -
  from bitlen_bounds [OF assms]
  have l: "2 ^ nat (bitlen a - 1) \<le> a" and u: "a < 2 ^ nat (bitlen a)" by simp_all
  from assms have b1: "1 \<le> bitlen a" by (auto simp: bitlen_alt_def)
  have "(2::rat) powi (bitlen a - 1) = 2 ^ nat (bitlen a - 1)"
    using b1 by (simp add: power_int_nonneg_exp)
  also have "\<dots> = of_int (2 ^ nat (bitlen a - 1))" by simp
  also have "\<dots> \<le> of_int a" using l by (simp only: of_int_le_iff)
  finally show "(2::rat) powi (bitlen a - 1) \<le> of_int a" .
  have "of_int a < (of_int (2 ^ nat (bitlen a)) :: rat)" using u by (simp only: of_int_less_iff)
  also have "\<dots> = 2 ^ nat (bitlen a)" by simp
  also have "\<dots> = 2 powi (bitlen a)" using b1 by (simp add: power_int_nonneg_exp)
  finally show "of_int a < (2::rat) powi (bitlen a)" .
qed

lemma ilog2_bounds:
  assumes "0 < x"
  shows "2 powi (ilog2 x) \<le> x" and "x < 2 powi (ilog2 x + 1)"
proof -
  obtain a b where q: "quotient_of x = (a, b)" by (cases "quotient_of x")
  from quotient_of_denom_pos [OF q] have b: "0 < b" .
  from quotient_of_div [OF q] have x: "x = of_int a / of_int b" .
  from assms b x have a: "0 < a" by (simp add: zero_less_divide_iff)
  define d where "d = bitlen a - bitlen b"
  note A = bitlen_powi [OF a] and B = bitlen_powi [OF b]
  have bpos: "(0::rat) < of_int b" using b by simp
  have lo: "2 powi (d - 1) \<le> x"
  proof -
    have "(2::rat) powi (d - 1) * of_int b \<le> 2 powi (d - 1) * 2 powi (bitlen b)"
      using B(2) by (intro mult_left_mono) simp_all
    also have "\<dots> = 2 powi (bitlen a - 1)"
      by (simp add: d_def power_int_add [symmetric])
    also have "\<dots> \<le> of_int a" by (rule A(1))
    finally show ?thesis using bpos by (simp add: x pos_le_divide_eq)
  qed
  have hi: "x < 2 powi (d + 1)"
  proof -
    have "of_int a < (2::rat) powi (bitlen a)" by (rule A(2))
    also have "\<dots> = 2 powi (d + 1) * 2 powi (bitlen b - 1)"
      by (simp add: d_def power_int_add [symmetric])
    also have "\<dots> \<le> 2 powi (d + 1) * of_int b"
      using B(1) by (intro mult_left_mono) simp_all
    finally show ?thesis using bpos by (simp add: x pos_divide_less_eq)
  qed
  have i: "ilog2 x = (if 2 powi d \<le> x then d else d - 1)"
    by (simp add: ilog2_def q d_def Let_def)
  show "2 powi (ilog2 x) \<le> x" using lo by (simp add: i)
  show "x < 2 powi (ilog2 x + 1)" using hi by (auto simp: i not_le)
qed

lemma powi2_less_imp:
  assumes "(2::rat) powi m < 2 powi n"
  shows "m < n"
proof (rule ccontr)
  assume "\<not> m < n"
  then have "n \<le> m" by simp
  then have "(2::rat) powi n \<le> 2 powi m" by (rule power_int_increasing) simp
  with assms show False by simp
qed

lemma ilog2_unique:
  assumes "0 < x" and "2 powi e \<le> x" and "x < 2 powi (e + 1)"
  shows "ilog2 x = e"
proof -
  from ilog2_bounds [OF assms(1)] assms(2,3)
  have a: "(2::rat) powi (ilog2 x) < 2 powi (e + 1)"
    and b: "(2::rat) powi e < 2 powi (ilog2 x + 1)"
    by linarith+
  from powi2_less_imp [OF a] powi2_less_imp [OF b] show ?thesis by simp
qed

lemma round_half_even_int [simp]: "round_half_even (of_int k) = k"
  by (simp add: round_half_even_def)

lemma round_half_even_unique:
  assumes "\<bar>m - of_int n\<bar> < 1 / 2"
  shows "round_half_even m = n"
proof -
  have "\<lfloor>m\<rfloor> = n \<or> \<lfloor>m\<rfloor> = n - 1" using assms by linarith
  then show ?thesis
  proof
    assume f: "\<lfloor>m\<rfloor> = n"
    with assms have "m - of_int n < 1 / 2" by linarith
    with f show ?thesis by (simp add: round_half_even_def Let_def)
  next
    assume f: "\<lfloor>m\<rfloor> = n - 1"
    with assms have "m - of_int (n - 1) > 1 / 2" by (simp; linarith)
    with f show ?thesis by (simp add: round_half_even_def Let_def)
  qed
qed

lemma round_half_even_ge:
  assumes "of_int k \<le> m"
  shows "k \<le> round_half_even m"
proof -
  from assms have "k \<le> \<lfloor>m\<rfloor>" by (simp add: le_floor_iff)
  then show ?thesis by (auto simp: round_half_even_def Let_def)
qed

lemma round64_eqI:
  assumes x: "0 < x" and lo: "2 powi e \<le> x" and hi: "x < 2 powi (e + 1)"
    and q: "q = max e (- 1022) - 52"
    and n: "\<bar>x / 2 powi q - of_int n\<bar> < 1 / 2"
    and y: "y = of_int n * 2 powi q" and fin: "y < 2 powi 1024"
  shows "round64 x = Finite y"
proof -
  have e: "ilog2 \<bar>x\<bar> = e" using x lo hi by (simp add: ilog2_unique)
  have r: "round_half_even (\<bar>x\<bar> / 2 powi q) = n"
    using n x by (simp add: round_half_even_unique)
  show ?thesis
    using x fin unfolding round64_def Let_def e q [symmetric] r y [symmetric]
    by (simp add: not_le)
qed

lemma round_half_even_tie:
  assumes "m = of_int f + 1 / 2"
  shows "round_half_even m = (if even f then f else f + 1)"
proof -
  have "\<lfloor>m\<rfloor> = f" unfolding assms by linarith
  then show ?thesis by (simp add: round_half_even_def Let_def assms)
qed

lemma round64_tieI:
  assumes x: "0 < x" and lo: "2 powi e \<le> x" and hi: "x < 2 powi (e + 1)"
    and q: "q = max e (- 1022) - 52"
    and t: "x / 2 powi q = of_int f + 1 / 2"
    and y: "y = of_int (if even f then f else f + 1) * 2 powi q" and fin: "y < 2 powi 1024"
  shows "round64 x = Finite y"
proof -
  have e: "ilog2 \<bar>x\<bar> = e" using x lo hi by (simp add: ilog2_unique)
  have r: "round_half_even (\<bar>x\<bar> / 2 powi q) = (if even f then f else f + 1)"
    using x round_half_even_tie [OF t] by simp
  show ?thesis
    using x fin unfolding round64_def Let_def e q [symmetric] r y [symmetric]
    by (simp add: not_le)
qed

lemma round64_minus:
  "round64 (- x) =
     (case round64 x of Finite y \<Rightarrow> Finite (- y) | PosInfinity \<Rightarrow> NegInfinity
      | NegInfinity \<Rightarrow> PosInfinity | NaN \<Rightarrow> NaN)"
  by (cases "x = 0"; cases "0 < x") (auto simp: round64_def Let_def)

lemma grid_unit_pos: "0 < grid_unit"
  unfolding grid_unit_def by (rule zero_less_power_int) simp

lemma on_grid_0 [simp]: "on_grid 0"
  unfolding on_grid_def by (rule exI [of _ 0]) simp

lemma on_grid_minus: "on_grid y \<Longrightarrow> on_grid (- y)"
  unfolding on_grid_def
proof (elim exE)
  fix k :: int assume "y = of_int k * grid_unit"
  then have "- y = of_int (- k) * grid_unit" by simp
  then show "\<exists>k::int. - y = of_int k * grid_unit" by blast
qed

lemma on_grid_diff: "on_grid a \<Longrightarrow> on_grid b \<Longrightarrow> on_grid (a - b)"
  unfolding on_grid_def
proof (elim exE)
  fix k l :: int assume "a = of_int k * grid_unit" "b = of_int l * grid_unit"
  then have "a - b = of_int (k - l) * grid_unit" by (simp add: algebra_simps)
  then show "\<exists>k::int. a - b = of_int k * grid_unit" by blast
qed

lemma powi_shift: "(2::rat) powi q = 2 powi (q + c) * 2 powi (- c)"
  by (simp flip: power_int_add)

lemma on_grid_scaled:
  assumes "- 1074 \<le> q"
  shows "on_grid (of_int n * 2 powi q)"
proof -
  have a: "(2::rat) powi q = 2 powi (q + 1074) * grid_unit"
    unfolding grid_unit_def by (rule powi_shift)
  have b: "(2::rat) powi (q + 1074) = of_int (2 ^ nat (q + 1074))"
    using assms by (simp add: power_int_nonneg_exp)
  have "of_int n * (2::rat) powi q = of_int (n * 2 ^ nat (q + 1074)) * grid_unit"
    unfolding a b by simp
  then show ?thesis unfolding on_grid_def by blast
qed

lemma round64_grid:
  assumes "round64 x = Finite y"
  shows "on_grid y"
proof (cases "x = 0")
  case True
  with assms show ?thesis by (simp add: round64_def)
next
  case False
  define q where "q = max (ilog2 \<bar>x\<bar>) (- 1022) - 52"
  define n where "n = round_half_even (\<bar>x\<bar> / 2 powi q)"
  have q: "- 1074 \<le> q" by (simp add: q_def)
  from assms False have "y = of_int n * 2 powi q \<or> y = - (of_int n * 2 powi q)"
    unfolding round64_def Let_def q_def [symmetric] n_def [symmetric]
    by (auto split: if_splits)
  with on_grid_scaled [OF q, of n] on_grid_minus show ?thesis by auto
qed

lemma round64_pos:
  assumes g: "on_grid d" and d: "0 < d"
  shows "round64 d = PosInfinity \<or> (\<exists>y. 0 < y \<and> round64 d = Finite y)"
proof -
  define q where "q = max (ilog2 \<bar>d\<bar>) (- 1022) - 52"
  define n where "n = round_half_even (\<bar>d\<bar> / 2 powi q)"
  have "(1::rat) \<le> d / 2 powi q"
  proof (cases "ilog2 d \<le> - 1022")
    case True
    then have "q = - 1074" using d by (simp add: q_def)
    then have q: "(2::rat) powi q = grid_unit" by (simp only: grid_unit_def)
    from g obtain k :: int where k: "d = of_int k * grid_unit"
      unfolding on_grid_def by blast
    with d grid_unit_pos have "0 < (of_int k :: rat)" by (simp add: zero_less_mult_iff)
    then have "1 \<le> k" by simp
    then have "(1 :: rat) \<le> of_int k" by (simp only: of_int_1_le_iff)
    moreover have "d / 2 powi q = of_int k" using grid_unit_pos by (simp add: k q)
    ultimately show ?thesis by simp
  next
    case False
    then have q: "q = ilog2 d - 52" using d by (simp add: q_def)
    have "(2::rat) powi q \<le> 2 powi (ilog2 d)"
      unfolding q by (rule power_int_increasing) simp_all
    also have "\<dots> \<le> d" using ilog2_bounds(1) [OF d] .
    finally show ?thesis by (simp add: pos_le_divide_eq)
  qed
  then have "of_int 1 \<le> \<bar>d\<bar> / 2 powi q" using d by simp
  then have "1 \<le> n" unfolding n_def by (rule round_half_even_ge)
  then have "(0::rat) < of_int n * 2 powi q" by (simp add: zero_less_mult_iff)
  then show ?thesis
    using d unfolding round64_def Let_def q_def [symmetric] n_def [symmetric]
    by auto
qed


text \<open>A positive integer below \<open>2^53\<close> is a binary64 value.\<close>

lemma round64_int:
  assumes "0 < k" and "k < 2 ^ 53"
  shows "round64 (of_int k) = Finite (of_int k)"
proof -
  define e where "e = bitlen k - 1"
  from bitlen_powi [OF assms(1)]
  have lo: "(2::rat) powi e \<le> of_int k" and hi: "of_int k < (2::rat) powi (e + 1)"
    by (simp_all add: e_def)
  have k53: "(of_int k :: rat) < of_int (2 ^ 53)" using assms(2) by (simp only: of_int_less_iff)
  then have "(2::rat) powi e < 2 powi 53" using lo by simp
  then have e53: "e < 53" by (rule powi2_less_imp)
  from assms(1) have e0: "0 \<le> e" by (auto simp: e_def bitlen_alt_def)
  define q where "q = max e (- 1022) - 52"
  have q: "q = e - 52" using e0 by (simp add: q_def)
  define m where "m = k * 2 ^ nat (52 - e)"
  have p: "(2::rat) powi (52 - e) = of_int (2 ^ nat (52 - e))"
    using e53 by (simp add: power_int_nonneg_exp)
  have "(2::rat) powi q * 2 powi (52 - e) = 1"
    unfolding q by (simp flip: power_int_add)
  then have y: "of_int m * (2::rat) powi q = of_int k"
    unfolding m_def of_int_mult p [symmetric] by (simp add: mult.assoc mult.commute)
  have d: "of_int k / (2::rat) powi q = of_int m"
    unfolding y [symmetric] by simp
  show ?thesis
  proof (rule round64_eqI [OF _ lo hi q_def])
    show "0 < (of_int k :: rat)" using assms(1) by simp
    show "\<bar>of_int k / 2 powi q - of_int m\<bar> < (1::rat) / 2"
      unfolding d by simp
    show "of_int k = of_int m * (2::rat) powi q"
      using y by simp
    show "(of_int k :: rat) < 2 powi 1024"
    proof -
      have "(of_int k :: rat) < 2 powi 53" using k53 by simp
      also have "\<dots> \<le> 2 powi 1024" by (rule power_int_increasing) simp_all
      finally show ?thesis .
    qed
  qed
qed

lemma round64_numeral:
  "numeral w < (2::int) ^ 53 \<Longrightarrow> round64 (numeral w) = Finite (numeral w)"
  using round64_int [of "numeral w"] by simp

lemma round64_neg_numeral:
  "numeral w < (2::int) ^ 53 \<Longrightarrow> round64 (- numeral w) = Finite (- numeral w)"
  by (simp add: round64_minus round64_numeral)

lemma powi_neg_numeral: "(2::rat) powi (- numeral n) = 1 / 2 ^ numeral n"
  by (simp add: power_int_minus_divide)

text \<open>The sign of a rounded value, and the comparator of the sort.\<close>

lemma grid_ok_round64: "grid_ok (round64 x)"
  by (cases "round64 x") (simp_all add: round64_grid)

lemma grid_ok_fadd: "grid_ok (fadd x y)"
  by (cases x; cases y) (simp_all add: grid_ok_round64)

lemma is_binary64_grid: "is_binary64 x \<Longrightarrow> grid_ok x"
  by (cases x) (simp_all add: round64_grid)

lemma is_positive_round64:
  assumes "on_grid d"
  shows "is_positive (round64 d) \<longleftrightarrow> 0 < d"
proof -
  consider "0 < d" | "d = 0" | "d < 0" by linarith
  then show ?thesis
  proof cases
    case 1
    with round64_pos [OF assms] show ?thesis by auto
  next
    case 2
    then show ?thesis by (simp add: round64_def)
  next
    case 3
    then have "0 < - d" by simp
    from round64_pos [OF on_grid_minus [OF assms] this]
    have "\<not> is_positive (round64 (- (- d)))"
      unfolding round64_minus [of "- d"] by auto
    with 3 show ?thesis by simp
  qed
qed

lemma is_positive_fsub:
  assumes "grid_ok x" "grid_ok y" "x \<noteq> NaN" "y \<noteq> NaN"
  shows "is_positive (fsub x y) \<longleftrightarrow> y < x"
proof (cases x)
  case x: (Finite a)
  show ?thesis
  proof (cases y)
    case y: (Finite b)
    from assms(1,2) have "on_grid (a - b)" unfolding x y by (simp add: on_grid_diff)
    from is_positive_round64 [OF this] show ?thesis
      by (simp add: x y fsub_def less_number_def) linarith
  qed (use assms x in \<open>simp_all add: fsub_def less_number_def\<close>)
qed (use assms in \<open>cases y; simp add: fsub_def less_number_def\<close>)+

lemma insortNumber_insort:
  assumes "grid_ok x" "x \<noteq> NaN" "\<forall>y \<in> set ys. grid_ok y \<and> y \<noteq> NaN"
  shows "insortNumber x ys = insort x ys"
  using assms(3)
proof (induction ys)
  case Nil
  then show ?case by simp
next
  case (Cons y ys)
  then have "is_positive (fsub x y) \<longleftrightarrow> y < x"
    using assms(1,2) by (simp add: is_positive_fsub)
  with Cons show ?case by (auto simp: not_le)
qed

lemma sortNumbers_sort:
  assumes "\<forall>x \<in> set xs. grid_ok x \<and> x \<noteq> NaN"
  shows "sortNumbers xs = sort xs"
  using assms
proof (induction xs)
  case Nil
  then show ?case by (simp add: sortNumbers_def)
next
  case (Cons x xs)
  then have "sortNumbers xs = sort xs" by simp
  moreover have "\<forall>y \<in> set (sort xs). grid_ok y \<and> y \<noteq> NaN" using Cons.prems by simp
  ultimately show ?case
    using Cons.prems insortNumber_insort [of x "sort xs"]
    by (simp add: sortNumbers_def)
qed

lemma strict_eq_conv: "v \<noteq> NaN \<Longrightarrow> strict_eq x v \<longleftrightarrow> x = v"
  by (cases x; cases v) simp_all

lemma indexOf_number_eq: "v \<noteq> NaN \<Longrightarrow> indexOf_number xs v = indexOf xs v"
  by (induction xs) (simp_all add: strict_eq_conv)

lemma getQuantile_number_eq: "v \<noteq> NaN \<Longrightarrow> getQuantile_number xs v = getQuantile xs v"
  by (simp add: getQuantile_number_def getQuantile_def indexOf_number_eq)

lemma getQuantile_number_range: "getQuantile_number values value \<in> {1, 2, 3, 4}"
  by (simp add: getQuantile_number_def Let_def)

lemma getQuantile_number_singleton: "getQuantile_number (sortNumbers [x]) x = 1"
  by (cases x) (simp_all add: getQuantile_number_def sortNumbers_def)

text \<open>Running sums.\<close>

lemma running_sum_snoc: "xs \<noteq> [] \<Longrightarrow> running_sum (xs @ [a]) = fadd (running_sum xs) a"
  by (cases xs) simp_all

lemma exact_from_foldl:
  "exact_from s as \<Longrightarrow> foldl fadd (Finite s) as = Finite (s + sum_list (map value_of as))"
proof (induction as arbitrary: s)
  case Nil
  then show ?case by simp
next
  case (Cons a as)
  then obtain q where a: "a = Finite q" by (cases a) simp_all
  from Cons.prems have r: "round64 (s + q) = Finite (s + q)" and e: "exact_from (s + q) as"
    by (simp_all add: a)
  from Cons.IH [OF e] r show ?case by (simp add: a add.assoc)
qed

lemma sums_exact_running:
  assumes "sums_exact as" and "as \<noteq> []"
  shows "running_sum as = Finite (sum_list (map value_of as))"
proof -
  from assms obtain q bs where as: "as = Finite q # bs"
    by (cases as rule: sums_exact.cases) simp_all
  with assms(1) have "exact_from q bs" by simp
  from exact_from_foldl [OF this] show ?thesis by (simp add: as)
qed

lemma sum_list_value_of_mset:
  assumes "mset as' = mset as"
  shows "sum_list (map value_of as') = sum_list (map value_of as)"
proof -
  have "mset (map value_of as') = mset (map value_of as)" using assms by simp
  then show ?thesis by (metis sum_mset_sum_list)
qed

subsection \<open>The error monad and the aggregation map\<close>

lemma mapM_Inr_conv: "mapM f xs = Inr ys \<longleftrightarrow> map f xs = map Inr ys"
proof (induction xs arbitrary: ys)
  case Nil
  then show ?case by auto
next
  case (Cons x xs)
  show ?case
  proof (cases "f x")
    case (Inl e)
    then show ?thesis by (cases ys) auto
  next
    case (Inr y)
    show ?thesis
    proof (cases "mapM f xs")
      case (Inl e)
      with Cons.IH have "map f xs \<noteq> map Inr zs" for zs by simp
      with Inl Inr show ?thesis by (cases ys) auto
    next
      case r: (Inr zs)
      with Cons.IH [of zs] have "map f xs = map Inr zs" by simp
      with r Inr show ?thesis by (cases ys) (auto simp: inj_map_eq_map)
    qed
  qed
qed

lemma customerData_of_snoc:
  "customerData_of newDate (ts @ [t]) = forEach_step newDate (customerData_of newDate ts) t"
  by (simp add: customerData_of_def)

lemma customerData_of_Nil: "customerData_of newDate [] = []"
  by (simp add: customerData_of_def)

lemma map_of_forEach_step:
  "map_of (forEach_step newDate cd t) =
     (map_of cd)(customer_id t \<mapsto>
        (case map_of cd (customer_id t) of
           Some existing \<Rightarrow>
             \<lparr> transactions = transactions existing + 1,
               totalSpend = fadd (totalSpend existing) (transaction_amount t),
               lastDate = (if date_gt (newDate (transaction_date t)) (lastDate existing)
                           then newDate (transaction_date t) else lastDate existing) \<rparr>
         | None \<Rightarrow>
             \<lparr> transactions = 1, totalSpend = transaction_amount t,
               lastDate = newDate (transaction_date t) \<rparr>))"
  by (simp add: forEach_step_def Let_def update_conv' split: option.splits)

lemma distinct_forEach_step:
  "distinct (map fst cd) \<Longrightarrow> distinct (map fst (forEach_step newDate cd t))"
  by (simp add: forEach_step_def Let_def distinct_update split: option.splits)

lemma distinct_customerData_of: "distinct (map fst (customerData_of newDate ts))"
  by (induction ts rule: rev_induct)
     (simp_all add: customerData_of_Nil customerData_of_snoc distinct_forEach_step)

lemma keys_forEach_step:
  "fst ` set (forEach_step newDate cd t) = insert (customer_id t) (fst ` set cd)"
  by (simp add: forEach_step_def Let_def dom_update split: option.splits)

lemma keys_customerData_of:
  "fst ` set (customerData_of newDate ts) = customer_id ` set ts"
  by (induction ts rule: rev_induct)
     (auto simp: customerData_of_Nil customerData_of_snoc keys_forEach_step)

lemma mapM_Inl_conv: "(\<exists>e. mapM f xs = Inl e) \<longleftrightarrow> (\<exists>x \<in> set xs. \<exists>e. f x = Inl e)"
  by (induction xs) (auto split: sum.splits)

subsection \<open>First index and quartile\<close>

text \<open>
  \<^verbatim>\<open>indexOf\<close> returns the first index that holds the value; in a sorted array it is monotone
  in the value, and in an array without duplicates it is the position itself.
\<close>

lemma indexOf_notin: "v \<notin> set xs \<Longrightarrow> indexOf xs v = - 1"
  by (induction xs) (auto simp: Let_def)

lemma indexOf_in:
  "v \<in> set xs \<Longrightarrow> 0 \<le> indexOf xs v \<and> indexOf xs v < int (length xs)"
  by (induction xs) (auto simp: Let_def)

lemma indexOf_nth: "v \<in> set xs \<Longrightarrow> xs ! nat (indexOf xs v) = v"
proof (induction xs)
  case Nil
  then show ?case by simp
next
  case (Cons x xs)
  show ?case
  proof (cases "x = v")
    case True
    then show ?thesis by simp
  next
    case False
    with Cons.prems have in_xs: "v \<in> set xs" by simp
    from indexOf_in [OF in_xs] have "0 \<le> indexOf xs v" by simp
    then have "nat (indexOf xs v + 1) = Suc (nat (indexOf xs v))" by simp
    with False Cons.IH [OF in_xs] \<open>0 \<le> indexOf xs v\<close> show ?thesis
      by (simp add: Let_def)
  qed
qed

lemma indexOf_first: "j < nat (indexOf xs v) \<Longrightarrow> xs ! j \<noteq> v"
proof (induction xs arbitrary: j)
  case Nil
  then show ?case by simp
next
  case (Cons x xs)
  show ?case
  proof (cases "x = v")
    case True
    with Cons.prems show ?thesis by simp
  next
    case False
    show ?thesis
    proof (cases j)
      case 0
      with False show ?thesis by simp
    next
      case (Suc k)
      with Cons.prems False have "k < nat (indexOf xs v)"
        by (auto simp: Let_def split: if_splits)
      from Cons.IH [OF this] Suc show ?thesis by simp
    qed
  qed
qed

lemma indexOf_nth_distinct:
  "distinct xs \<Longrightarrow> i < length xs \<Longrightarrow> indexOf xs (xs ! i) = int i"
proof (induction xs arbitrary: i)
  case Nil
  then show ?case by simp
next
  case (Cons x xs)
  show ?case
  proof (cases i)
    case 0
    then show ?thesis by simp
  next
    case (Suc k)
    with Cons.prems have k: "k < length xs" and "x \<noteq> xs ! k" by auto
    with Cons.IH [of k] Cons.prems Suc show ?thesis by (simp add: Let_def)
  qed
qed

lemma indexOf_mono_sorted:
  "sorted xs \<Longrightarrow> v \<in> set xs \<Longrightarrow> w \<in> set xs \<Longrightarrow> v \<le> w
     \<Longrightarrow> indexOf xs v \<le> indexOf xs w"
proof (induction xs)
  case Nil
  then show ?case by simp
next
  case (Cons x xs)
  show ?case
  proof (cases "x = v")
    case True
    with indexOf_in [OF Cons.prems(3)] show ?thesis by simp
  next
    case False
    with Cons.prems have v: "v \<in> set xs" by simp
    with Cons.prems(1) have "x \<le> v" by simp
    with False Cons.prems(4) have "x \<noteq> w" by auto
    with Cons.prems have w: "w \<in> set xs" by simp
    from Cons.prems(1) have "sorted xs" by simp
    from Cons.IH [OF this v w Cons.prems(4)] indexOf_in [OF v] indexOf_in [OF w]
    show ?thesis using False \<open>x \<noteq> w\<close> by (simp add: Let_def)
  qed
qed

lemma getQuantile_index:
  "values \<noteq> [] \<Longrightarrow>
   getQuantile values value =
     (let i = indexOf values value; n = int (length values)
      in if 4 * i \<le> n then 1 else if 2 * i \<le> n then 2 else if 4 * i \<le> 3 * n then 3 else 4)"
proof -
  assume ne: "values \<noteq> []"
  define n where "n = int (length values)"
  define i where "i = indexOf values value"
  have npos: "0 < n" using ne by (simp add: n_def)
  have q: "(of_int i :: rat) / of_nat (length values) = of_int i / of_int n"
    by (simp add: n_def)
  have a: "(of_int i :: rat) / of_int n \<le> 25 / 100 \<longleftrightarrow> 4 * i \<le> n"
  proof -
    have "(of_int i :: rat) / of_int n \<le> 25 / 100 \<longleftrightarrow> (of_int (4 * i) :: rat) \<le> of_int n"
      using npos by (simp add: field_simps)
    then show ?thesis by (simp only: of_int_le_iff)
  qed
  have b: "(of_int i :: rat) / of_int n \<le> 5 / 10 \<longleftrightarrow> 2 * i \<le> n"
  proof -
    have "(of_int i :: rat) / of_int n \<le> 5 / 10 \<longleftrightarrow> (of_int (2 * i) :: rat) \<le> of_int n"
      using npos by (simp add: field_simps)
    then show ?thesis by (simp only: of_int_le_iff)
  qed
  have c: "(of_int i :: rat) / of_int n \<le> 75 / 100 \<longleftrightarrow> 4 * i \<le> 3 * n"
  proof -
    have "(of_int i :: rat) / of_int n \<le> 75 / 100 \<longleftrightarrow> (of_int (4 * i) :: rat) \<le> of_int (3 * n)"
      using npos by (simp add: field_simps)
    then show ?thesis by (simp only: of_int_le_iff)
  qed
  show ?thesis
    using ne unfolding getQuantile_def Let_def i_def [symmetric] q n_def [symmetric] a b c
    by (simp add: i_def n_def)
qed

lemma getQuantile_range: "getQuantile values value \<in> {1, 2, 3, 4}"
  by (simp add: getQuantile_def Let_def)

subsection \<open>What the aggregation map holds for a customer\<close>

text \<open>
  The entry of a customer counts and sums the customer's transactions; when all dates
  parse, its last date is the greatest of their time values.
\<close>

lemma transactions_of_snoc:
  "transactions_of c (ts @ [t]) =
     (if customer_id t = c then transactions_of c ts @ [t] else transactions_of c ts)"
  by (simp add: transactions_of_def)

lemma map_of_customerData_of_None:
  "map_of (customerData_of newDate ts) c = None \<longleftrightarrow> transactions_of c ts = []"
proof -
  have "map_of (customerData_of newDate ts) c = None \<longleftrightarrow> c \<notin> customer_id ` set ts"
    by (simp add: map_of_eq_None_iff keys_customerData_of)
  also have "\<dots> \<longleftrightarrow> transactions_of c ts = []"
    by (auto simp: transactions_of_def filter_empty_conv)
  finally show ?thesis .
qed

lemma customerData_of_counts:
  "map_of (customerData_of newDate ts) c = Some d \<Longrightarrow>
     transactions d = int (length (transactions_of c ts)) \<and>
     totalSpend d = running_sum (map transaction_amount (transactions_of c ts))"
proof (induction ts arbitrary: d rule: rev_induct)
  case Nil
  then show ?case by (simp add: customerData_of_Nil)
next
  case (snoc t ts)
  let ?cd = "customerData_of newDate ts"
  show ?case
  proof (cases "customer_id t = c")
    case False
    with snoc.prems have "map_of ?cd c = Some d"
      by (simp add: customerData_of_snoc map_of_forEach_step)
    from snoc.IH [OF this] False show ?thesis
      by (simp add: transactions_of_snoc)
  next
    case True
    show ?thesis
    proof (cases "map_of ?cd c")
      case None
      then have "transactions_of c ts = []"
        by (simp add: map_of_customerData_of_None)
      with snoc.prems True None show ?thesis
        by (auto simp: customerData_of_snoc map_of_forEach_step transactions_of_snoc)
    next
      case (Some e)
      then have "transactions_of c ts \<noteq> []"
        using map_of_customerData_of_None [of newDate ts c] by simp
      then have "map transaction_amount (transactions_of c ts) \<noteq> []" by simp
      from running_sum_snoc [OF this] snoc.IH [OF Some] snoc.prems True Some show ?thesis
        by (auto simp: customerData_of_snoc map_of_forEach_step transactions_of_snoc)
    qed
  qed
qed

lemma customerData_of_grid:
  assumes "\<forall>t \<in> set ts. grid_ok (transaction_amount t)"
    and "map_of (customerData_of newDate ts) c = Some d"
  shows "grid_ok (totalSpend d)"
  using assms
proof (induction ts arbitrary: d rule: rev_induct)
  case Nil
  then show ?case by (simp add: customerData_of_Nil)
next
  case (snoc t ts)
  let ?cd = "customerData_of newDate ts"
  show ?case
  proof (cases "customer_id t = c")
    case False
    with snoc.prems have "map_of ?cd c = Some d"
      by (simp add: customerData_of_snoc map_of_forEach_step)
    with snoc.IH snoc.prems(1) show ?thesis by simp
  next
    case True
    with snoc.prems show ?thesis
      by (cases "map_of ?cd c")
         (auto simp: customerData_of_snoc map_of_forEach_step grid_ok_fadd)
  qed
qed

lemma times_of_alt:
  "times_of newDate ts = {a. \<exists>t \<in> set ts. newDate (transaction_date t) = Some a}"
  by (force simp: times_of_def List.map_filter_def image_iff)

lemma times_of_snoc:
  "newDate (transaction_date t) = Some a \<Longrightarrow>
     times_of newDate (ts @ [t]) = insert a (times_of newDate ts)"
  by (auto simp: times_of_alt)

lemma finite_times_of: "finite (times_of newDate ts)"
proof -
  have "times_of newDate ts \<subseteq> (\<lambda>t. the (newDate (transaction_date t))) ` set ts"
    by (force simp: times_of_alt)
  then show ?thesis by (rule finite_subset) simp
qed

lemma times_of_Nil: "times_of newDate [] = {}"
  by (simp add: times_of_alt)

lemma times_of_single:
  "newDate (transaction_date t) = Some a \<Longrightarrow> times_of newDate [t] = {a}"
  by (auto simp: times_of_alt)

lemma times_of_nonempty:
  "all_dates_valid newDate ts \<Longrightarrow> ts \<noteq> [] \<Longrightarrow> times_of newDate ts \<noteq> {}"
  by (cases ts) (auto simp: times_of_alt all_dates_valid_def)

lemma all_dates_valid_transactions_of:
  "all_dates_valid newDate ts \<Longrightarrow> all_dates_valid newDate (transactions_of c ts)"
  by (simp add: all_dates_valid_def transactions_of_def list_all_iff)

lemma customerData_of_lastDate:
  "all_dates_valid newDate ts \<Longrightarrow> map_of (customerData_of newDate ts) c = Some d \<Longrightarrow>
     lastDate d = Some (Max (times_of newDate (transactions_of c ts)))"
proof (induction ts arbitrary: d rule: rev_induct)
  case Nil
  then show ?case by (simp add: customerData_of_Nil)
next
  case (snoc t ts)
  let ?cd = "customerData_of newDate ts"
  from snoc.prems(1) have valid: "all_dates_valid newDate ts"
    by (simp add: all_dates_valid_def)
  from snoc.prems(1) obtain a where a: "newDate (transaction_date t) = Some a"
    by (auto simp: all_dates_valid_def)
  show ?case
  proof (cases "customer_id t = c")
    case False
    with snoc.prems have "map_of ?cd c = Some d"
      by (simp add: customerData_of_snoc map_of_forEach_step)
    from snoc.IH [OF valid this] False show ?thesis
      by (simp add: transactions_of_snoc)
  next
    case True
    show ?thesis
    proof (cases "map_of ?cd c")
      case None
      then have "transactions_of c ts = []"
        by (simp add: map_of_customerData_of_None)
      with snoc.prems True None a show ?thesis
        by (auto simp: customerData_of_snoc map_of_forEach_step transactions_of_snoc
            times_of_single)
    next
      case (Some e)
      let ?S = "times_of newDate (transactions_of c ts)"
      from Some have ne: "transactions_of c ts \<noteq> []"
        using map_of_customerData_of_None [of newDate ts c] by simp
      from times_of_nonempty [OF all_dates_valid_transactions_of [OF valid] ne]
      have S: "?S \<noteq> {}" .
      from snoc.IH [OF valid Some] have e: "lastDate e = Some (Max ?S)" .
      have M: "Max (insert a ?S) = max a (Max ?S)"
        using finite_times_of S by (rule Max_insert)
      from snoc.prems(2) True Some
      have d: "lastDate d = (if date_gt (Some a) (lastDate e) then Some a else lastDate e)"
        by (auto simp: customerData_of_snoc map_of_forEach_step a)
      have "lastDate d = Some (max a (Max ?S))"
        unfolding d e by (simp add: max_def)
      with True a M show ?thesis
        by (simp add: transactions_of_snoc times_of_snoc)
    qed
  qed
qed

lemma transactions_of_mset:
  "mset ts' = mset ts \<Longrightarrow> mset (transactions_of c ts') = mset (transactions_of c ts)"
  by (simp add: transactions_of_def)

lemma times_of_mset:
  assumes "mset xs = mset ys"
  shows "times_of newDate xs = times_of newDate ys"
  using mset_eq_setD [OF assms] by (simp add: times_of_alt)

lemma all_dates_valid_mset:
  assumes "mset xs = mset ys"
  shows "all_dates_valid newDate xs = all_dates_valid newDate ys"
  using mset_eq_setD [OF assms] by (simp add: all_dates_valid_def list_all_iff)

lemma customerData_eqI:
  assumes "transactions d = transactions e" "totalSpend d = totalSpend e"
    "lastDate d = lastDate e"
  shows "(d :: CustomerData) = e"
  using assms by (cases d, cases e) simp

subsection \<open>From the map to the records\<close>

lemma toCustomer_Inr:
  "toCustomer now p = Inr c \<Longrightarrow>
     c_customer_id c = fst p \<and> frequency c = transactions (snd p) \<and>
     monetary c = totalSpend (snd p) \<and> lastDate (snd p) = Some (c_lastDate c) \<and>
     recency c = (now - c_lastDate c) div 86400000"
  by (cases p) (auto split: option.splits)

lemma toCustomer_Inl:
  "(\<exists>e. toCustomer now p = Inl e) \<longleftrightarrow> lastDate (snd p) = None"
  by (cases p) (auto split: option.splits)

lemma customers_Inr_nth:
  assumes "customers now newDate ts = Inr cs"
  shows "length cs = length (customerData_of newDate ts)"
    and "i < length cs \<Longrightarrow> toCustomer now (customerData_of newDate ts ! i) = Inr (cs ! i)"
proof -
  from assms have m: "map (toCustomer now) (customerData_of newDate ts) = map Inr cs"
    by (simp add: customers_def mapM_Inr_conv)
  from arg_cong [OF m, of length] show l: "length cs = length (customerData_of newDate ts)"
    by simp
  assume "i < length cs"
  with l arg_cong [OF m, of "\<lambda>xs. xs ! i"]
  show "toCustomer now (customerData_of newDate ts ! i) = Inr (cs ! i)"
    by simp
qed

lemma customers_ids:
  assumes "customers now newDate ts = Inr cs"
  shows "map c_customer_id cs = map fst (customerData_of newDate ts)"
proof (rule nth_equalityI)
  show "length (map c_customer_id cs) = length (map fst (customerData_of newDate ts))"
    using customers_Inr_nth(1) [OF assms] by simp
next
  fix i assume "i < length (map c_customer_id cs)"
  then have i: "i < length cs" by simp
  from toCustomer_Inr [OF customers_Inr_nth(2) [OF assms i]] i customers_Inr_nth(1) [OF assms]
  show "map c_customer_id cs ! i = map fst (customerData_of newDate ts) ! i"
    by simp
qed

lemma customers_entry:
  assumes cs: "customers now newDate ts = Inr cs" and c: "c \<in> set cs"
  shows "\<exists>d. map_of (customerData_of newDate ts) (c_customer_id c) = Some d \<and>
             toCustomer now (c_customer_id c, d) = Inr c"
proof -
  from c obtain i where i: "i < length cs" and ci: "cs ! i = c"
    by (auto simp: in_set_conv_nth)
  let ?p = "customerData_of newDate ts ! i"
  from customers_Inr_nth(2) [OF cs i] ci have t: "toCustomer now ?p = Inr c" by simp
  from toCustomer_Inr [OF t] have k: "fst ?p = c_customer_id c" by simp
  from i customers_Inr_nth(1) [OF cs] have "?p \<in> set (customerData_of newDate ts)" by simp
  then have "(c_customer_id c, snd ?p) \<in> set (customerData_of newDate ts)"
    using k by (metis prod.collapse)
  then have "map_of (customerData_of newDate ts) (c_customer_id c) = Some (snd ?p)"
    using distinct_customerData_of by simp
  moreover from t k have "toCustomer now (c_customer_id c, snd ?p) = Inr c"
    by (metis prod.collapse)
  ultimately show ?thesis by blast
qed

lemma calculateRFM_Inr:
  "customers now newDate ts = Inr cs \<Longrightarrow>
   calculateRFM now newDate toISOString ts =
     Inr (map (scoreCustomer toISOString (sort (map recency cs)) (sort (map frequency cs))
                (sortNumbers (map monetary cs))) cs)"
  by (simp add: calculateRFM_def)

lemma calculateRFM_Inr_customers:
  "calculateRFM now newDate toISOString ts = Inr out \<Longrightarrow>
     \<exists>cs. customers now newDate ts = Inr cs \<and>
       out = map (scoreCustomer toISOString (sort (map recency cs)) (sort (map frequency cs))
                (sortNumbers (map monetary cs))) cs"
  by (auto simp: calculateRFM_def split: sum.splits)

lemma calculateRFM_Inl:
  "customers now newDate ts = Inl e \<Longrightarrow> calculateRFM now newDate toISOString ts = Inl e"
  by (simp add: calculateRFM_def)

lemma scoreCustomer_simps:
  "s_customer_id (scoreCustomer toISOString rv fv mv c) = c_customer_id c"
  "recency_score (scoreCustomer toISOString rv fv mv c) = 5 - getQuantile rv (recency c)"
  "frequency_score (scoreCustomer toISOString rv fv mv c) = getQuantile fv (frequency c)"
  "monetary_score (scoreCustomer toISOString rv fv mv c) = getQuantile_number mv (monetary c)"
  "total_transactions (scoreCustomer toISOString rv fv mv c) = frequency c"
  "total_spend (scoreCustomer toISOString rv fv mv c) = monetary c"
  "avg_spend (scoreCustomer toISOString rv fv mv c) = fdiv (monetary c) (frequency c)"
  by (simp_all add: scoreCustomer_def Let_def)

lemma customerData_of_valid_entry:
  assumes "all_dates_valid newDate ts" and "p \<in> set (customerData_of newDate ts)"
  shows "lastDate (snd p) \<noteq> None"
proof -
  from assms(2) have "(fst p, snd p) \<in> set (customerData_of newDate ts)" by simp
  then have "map_of (customerData_of newDate ts) (fst p) = Some (snd p)"
    using distinct_customerData_of by simp
  from customerData_of_lastDate [OF assms(1) this] show ?thesis by simp
qed

lemma customers_valid:
  assumes "all_dates_valid newDate ts"
  shows "\<exists>cs. customers now newDate ts = Inr cs"
proof (cases "customers now newDate ts")
  case (Inr cs)
  then show ?thesis by blast
next
  case (Inl e)
  then have "\<exists>e. mapM (toCustomer now) (customerData_of newDate ts) = Inl e"
    by (auto simp: customers_def)
  then obtain p where p: "p \<in> set (customerData_of newDate ts)"
    and "\<exists>e. toCustomer now p = Inl e"
    unfolding mapM_Inl_conv by blast
  then have "lastDate (snd p) = None" by (simp add: toCustomer_Inl)
  with customerData_of_valid_entry [OF assms p] show ?thesis by simp
qed

lemma keys_forEach_step_list:
  "map fst (forEach_step newDate cd t) =
     (if customer_id t \<in> set (map fst cd) then map fst cd else map fst cd @ [customer_id t])"
  by (simp add: forEach_step_def Let_def update_keys split: option.splits)

lemma customerData_of_order:
  "map fst (customerData_of newDate ts) = rev (remdups (rev (map customer_id ts)))"
proof (induction ts rule: rev_induct)
  case Nil
  then show ?case by (simp add: customerData_of_Nil)
next
  case (snoc t ts)
  have "set (map fst (customerData_of newDate ts)) = customer_id ` set ts"
    using keys_customerData_of [of newDate ts] by simp
  with snoc show ?case
    by (simp add: customerData_of_snoc keys_forEach_step_list)
qed

lemma getQuantile_singleton: "getQuantile [x] x = 1"
  by (simp add: getQuantile_def)

lemma remdups_replicate_Suc: "remdups (replicate (Suc n) c) = [c]"
  by (induction n) auto

lemma getQuantile_mono_sorted:
  assumes "sorted xs" "v \<in> set xs" "w \<in> set xs" "v \<le> w"
  shows "getQuantile xs v \<le> getQuantile xs w"
proof -
  from assms(2) have ne: "xs \<noteq> []" by auto
  from indexOf_mono_sorted [OF assms] show ?thesis
    unfolding getQuantile_index [OF ne] Let_def by auto
qed

lemma calculateRFM_nth:
  assumes cs: "customers now newDate ts = Inr cs"
    and out: "calculateRFM now newDate toISOString ts = Inr out"
    and i: "i < length cs"
  shows "out ! i = scoreCustomer toISOString (sort (map recency cs)) (sort (map frequency cs))
                (sortNumbers (map monetary cs)) (cs ! i)"
  using calculateRFM_Inr [OF cs, of toISOString] out i by auto

subsection \<open>Group sizes for distinct values\<close>

text \<open>
  Looking up \<open>n\<close> distinct values in their sorted copy gives every rank below \<open>n\<close> once,
  so the size of a group is the number of ranks with that quartile.
\<close>

lemma getQuantile_rank:
  assumes "distinct xs" and "i < length xs"
  shows "getQuantile xs (xs ! i) = quartile_of_rank i (length xs)"
proof -
  from assms(2) have ne: "xs \<noteq> []" by auto
  have a: "4 * int i \<le> int (length xs) \<longleftrightarrow> i \<le> length xs div 4" by linarith
  have b: "2 * int i \<le> int (length xs) \<longleftrightarrow> i \<le> length xs div 2" by linarith
  have c: "4 * int i \<le> 3 * int (length xs) \<longleftrightarrow> i \<le> (3 * length xs) div 4" by linarith
  show ?thesis
    unfolding getQuantile_index [OF ne] Let_def indexOf_nth_distinct [OF assms] a b c
      quartile_of_rank_def ..
qed

lemma length_filter_mset_eq:
  assumes "mset xs = mset ys"
  shows "length (filter P xs) = length (filter P ys)"
proof -
  have "mset (filter P xs) = mset (filter P ys)"
    using assms by (simp only: mset_filter)
  then show ?thesis by (rule mset_eq_length)
qed

lemma quartile_count_card:
  assumes d: "distinct vs"
  shows "quartile_count vs q = card {i. i < length vs \<and> quartile_of_rank i (length vs) = q}"
proof -
  let ?xs = "sort vs" and ?n = "length vs"
  let ?P = "\<lambda>v. getQuantile ?xs v = q"
  let ?Q = "\<lambda>i. quartile_of_rank i ?n = q"
  have dx: "distinct ?xs" using d by simp
  have c1: "quartile_count vs q = length (filter ?P ?xs)"
    unfolding quartile_count_def by (rule length_filter_mset_eq) simp
  have "filter ?P (map ((!) ?xs) [0..<length ?xs])
      = map ((!) ?xs) (filter (?P \<circ> (!) ?xs) [0..<length ?xs])"
    by (rule filter_map)
  then have "filter ?P ?xs = map ((!) ?xs) (filter (?P \<circ> (!) ?xs) [0..<length ?xs])"
    by (simp only: map_nth)
  then have c2: "length (filter ?P ?xs) = length (filter (?P \<circ> (!) ?xs) [0..<?n])"
    by simp
  have c3: "filter (?P \<circ> (!) ?xs) [0..<?n] = filter ?Q [0..<?n]"
  proof (rule filter_cong [OF refl])
    fix i assume "i \<in> set [0..<?n]"
    then have "i < length ?xs" by simp
    from getQuantile_rank [OF dx this] show "(?P \<circ> (!) ?xs) i = ?Q i"
      by simp
  qed
  have c4: "length (filter ?Q [0..<?n]) = card ({i. ?Q i} \<inter> set [0..<?n])"
    by (rule distinct_length_filter) simp
  have c5: "{i. ?Q i} \<inter> set [0..<?n] = {i. i < ?n \<and> ?Q i}"
    by auto
  show ?thesis
    unfolding c1 c2 c3 c4 c5 ..
qed

lemma quartile_sets:
  assumes "0 < n"
  shows "{i. i < n \<and> quartile_of_rank i n = 1} = {..n div 4}"
    and "{i. i < n \<and> quartile_of_rank i n = 2} = {n div 4 <.. n div 2}"
    and "{i. i < n \<and> quartile_of_rank i n = 3} = {n div 2 <.. (3 * n) div 4}"
    and "{i. i < n \<and> quartile_of_rank i n = 4} = {(3 * n) div 4 <..< n}"
  using assms by (auto simp: quartile_of_rank_def split: if_splits)

lemma quartile_count_sizes:
  assumes "distinct vs" and "vs \<noteq> []"
  shows "quartile_count vs 1 = length vs div 4 + 1"
    and "quartile_count vs 2 = length vs div 2 - length vs div 4"
    and "quartile_count vs 3 = (3 * length vs) div 4 - length vs div 2"
    and "quartile_count vs 4 = length vs - 1 - (3 * length vs) div 4"
proof -
  from assms(2) have n: "0 < length vs" by simp
  show "quartile_count vs 1 = length vs div 4 + 1"
    unfolding quartile_count_card [OF assms(1)] quartile_sets [OF n] by simp
  show "quartile_count vs 2 = length vs div 2 - length vs div 4"
    unfolding quartile_count_card [OF assms(1)] quartile_sets [OF n] by simp
  show "quartile_count vs 3 = (3 * length vs) div 4 - length vs div 2"
    unfolding quartile_count_card [OF assms(1)] quartile_sets [OF n] by simp
  show "quartile_count vs 4 = length vs - 1 - (3 * length vs) div 4"
    unfolding quartile_count_card [OF assms(1)] quartile_sets [OF n] by simp
qed

lemma quartile_arith:
  fixes n :: nat
  assumes n: "0 < n"
  obtains k where "n = 4 * k" "0 < k" "n div 4 = k" "n div 2 = 2 * k" "(3 * n) div 4 = 3 * k"
  | k where "n = 4 * k + 1" "n div 4 = k" "n div 2 = 2 * k" "(3 * n) div 4 = 3 * k"
  | k where "n = 4 * k + 2" "n div 4 = k" "n div 2 = 2 * k + 1" "(3 * n) div 4 = 3 * k + 1"
  | k where "n = 4 * k + 3" "n div 4 = k" "n div 2 = 2 * k + 1" "(3 * n) div 4 = 3 * k + 2"
proof -
  define k where "k = n div 4"
  have dm: "n = 4 * k + n mod 4" unfolding k_def by simp
  have "n mod 4 < 4" by simp
  then consider "n mod 4 = 0" | "n mod 4 = 1" | "n mod 4 = 2" | "n mod 4 = 3" by linarith
  then show thesis
  proof cases
    case 1
    have e: "n = 4 * k" using 1 dm by simp
    with n have "0 < k" by simp
    moreover have "n div 4 = k" "n div 2 = 2 * k" "(3 * n) div 4 = 3 * k"
      unfolding e by simp_all
    ultimately show thesis using e that(1) by blast
  next
    case 2
    have e: "n = 4 * k + 1" using 2 dm by simp
    have "n div 4 = k" "n div 2 = 2 * k" "(3 * n) div 4 = 3 * k"
      unfolding e by presburger+
    then show thesis using e that(2) by blast
  next
    case 3
    have e: "n = 4 * k + 2" using 3 dm by simp
    have "n div 4 = k" "n div 2 = 2 * k + 1" "(3 * n) div 4 = 3 * k + 1"
      unfolding e by presburger+
    then show thesis using e that(3) by blast
  next
    case 4
    have e: "n = 4 * k + 3" using 4 dm by simp
    have "n div 4 = k" "n div 2 = 2 * k + 1" "(3 * n) div 4 = 3 * k + 2"
      unfolding e by presburger+
    then show thesis using e that(4) by blast
  qed
qed

lemma four_way_count:
  fixes f :: "'a \<Rightarrow> int"
  assumes "\<forall>v \<in> set xs. f v \<in> {1, 2, 3, 4}"
  shows "length (filter (\<lambda>v. f v = 1) xs) + length (filter (\<lambda>v. f v = 2) xs)
      + length (filter (\<lambda>v. f v = 3) xs) + length (filter (\<lambda>v. f v = 4) xs) = length xs"
  using assms
proof (induction xs)
  case Nil
  then show ?case by simp
next
  case (Cons x xs)
  from Cons.prems have "f x = 1 \<or> f x = 2 \<or> f x = 3 \<or> f x = 4" by simp
  moreover from Cons.prems have "\<forall>v \<in> set xs. f v \<in> {1, 2, 3, 4}" by simp
  note Cons.IH [OF this]
  ultimately show ?case by (elim disjE) simp_all
qed

lemma score_count_frequency:
  assumes cs: "customers now newDate ts = Inr cs"
    and out: "calculateRFM now newDate toISOString ts = Inr out"
  shows "score_count frequency_score out q = quartile_count (map frequency cs) q"
proof -
  have "out = map (scoreCustomer toISOString (sort (map recency cs)) (sort (map frequency cs))
                (sortNumbers (map monetary cs))) cs"
    using calculateRFM_Inr [OF cs, of toISOString] out by simp
  then show ?thesis
    by (simp add: score_count_def quartile_count_def filter_map comp_def scoreCustomer_simps)
qed

lemma customers_grid:
  assumes cs: "customers now newDate ts = Inr cs"
    and bin: "list_all is_binary64 (map transaction_amount ts)"
    and c: "c \<in> set cs"
  shows "grid_ok (monetary c)"
proof -
  from customers_entry [OF cs c] obtain d
    where d: "map_of (customerData_of newDate ts) (c_customer_id c) = Some d"
      and t: "toCustomer now (c_customer_id c, d) = Inr c" by blast
  from bin have "\<forall>t \<in> set ts. grid_ok (transaction_amount t)"
    by (simp add: list_all_iff is_binary64_grid)
  from customerData_of_grid [OF this d] toCustomer_Inr [OF t] show ?thesis by simp
qed

lemma score_count_monetary:
  assumes cs: "customers now newDate ts = Inr cs"
    and out: "calculateRFM now newDate toISOString ts = Inr out"
    and bin: "list_all is_binary64 (map transaction_amount ts)"
    and nan: "NaN \<notin> set (map monetary cs)"
  shows "score_count monetary_score out q = quartile_count (map monetary cs) q"
proof -
  let ?mv = "map monetary cs"
  have good: "\<forall>x \<in> set ?mv. grid_ok x \<and> x \<noteq> NaN"
  proof
    fix x assume x: "x \<in> set ?mv"
    then obtain c where "c \<in> set cs" and "x = monetary c" by auto
    with customers_grid [OF cs bin] have "grid_ok x" by simp
    moreover from x nan have "x \<noteq> NaN" by metis
    ultimately show "grid_ok x \<and> x \<noteq> NaN" by simp
  qed
  have srt: "sortNumbers ?mv = sort ?mv" using good by (rule sortNumbers_sort)
  have o: "out = map (scoreCustomer toISOString (sort (map recency cs)) (sort (map frequency cs))
                (sortNumbers (map monetary cs))) cs"
    using calculateRFM_Inr [OF cs, of toISOString] out by simp
  have "filter (\<lambda>c. getQuantile_number (sort ?mv) (monetary c) = q) cs
      = filter (\<lambda>c. getQuantile (sort ?mv) (monetary c) = q) cs"
  proof (rule filter_cong [OF refl])
    fix c assume "c \<in> set cs"
    then have "monetary c \<in> set ?mv" by simp
    with nan have "monetary c \<noteq> NaN" by metis
    then show "(getQuantile_number (sort ?mv) (monetary c) = q)
             = (getQuantile (sort ?mv) (monetary c) = q)"
      by (simp add: getQuantile_number_eq)
  qed
  then show ?thesis
    unfolding o srt
    by (simp add: score_count_def quartile_count_def filter_map comp_def scoreCustomer_simps)
qed

lemma score_count_total:
  assumes cs: "customers now newDate ts = Inr cs"
    and out: "calculateRFM now newDate toISOString ts = Inr out"
    and r: "\<And>rv fv mv c. score (scoreCustomer toISOString rv fv mv c) \<in> {1, 2, 3, 4}"
  shows "score_count score out 1 + score_count score out 2 + score_count score out 3
           + score_count score out 4 = length cs"
proof -
  have o: "out = map (scoreCustomer toISOString (sort (map recency cs)) (sort (map frequency cs))
                (sortNumbers (map monetary cs))) cs"
    using calculateRFM_Inr [OF cs, of toISOString] out by simp
  have "\<forall>s \<in> set out. score s \<in> {1, 2, 3, 4}" unfolding o using r by auto
  from four_way_count [OF this] show ?thesis
    unfolding score_count_def by (simp add: o)
qed

lemma score_count_recency:
  assumes cs: "customers now newDate ts = Inr cs"
    and out: "calculateRFM now newDate toISOString ts = Inr out"
  shows "score_count recency_score out q = quartile_count (map recency cs) (5 - q)"
proof -
  have "out = map (scoreCustomer toISOString (sort (map recency cs)) (sort (map frequency cs))
                (sortNumbers (map monetary cs))) cs"
    using calculateRFM_Inr [OF cs, of toISOString] out by simp
  moreover have "(5 - x = q) = (x = 5 - q)" for x :: int by auto
  ultimately show ?thesis
    by (simp add: score_count_def quartile_count_def filter_map comp_def scoreCustomer_simps)
qed

lemma quartile_count_balanced:
  assumes d: "distinct vs" and ne: "vs \<noteq> []"
    and q: "q \<in> {1, 2, 3, 4}" and q': "q' \<in> {1, 2, 3, 4}"
  shows "\<bar>int (quartile_count vs q) - int (quartile_count vs q')\<bar> \<le> 2
       \<and> (length vs mod 4 \<noteq> 0 \<longrightarrow> \<bar>int (quartile_count vs q) - int (quartile_count vs q')\<bar> \<le> 1)"
proof -
  from ne have n: "0 < length vs" by simp
  note s = quartile_count_sizes [OF d ne]
  have a: "\<bar>int (quartile_count vs q) - int (quartile_count vs q')\<bar> \<le> 2"
    using n q q' by (cases "length vs" rule: quartile_arith) (auto simp: s)
  have b: "\<bar>int (quartile_count vs q) - int (quartile_count vs q')\<bar> \<le> 1"
    if "length vs mod 4 \<noteq> 0"
    using n q q' that by (cases "length vs" rule: quartile_arith) (auto simp: s)
  from a b show ?thesis by blast
qed

text \<open>Every value falls in one of the four groups, distinct values or not.\<close>

lemma quartile_count_total:
  "quartile_count vs 1 + quartile_count vs 2 + quartile_count vs 3 + quartile_count vs 4
     = length vs"
proof -
  have "\<forall>v \<in> set vs. getQuantile (sort vs) v \<in> {1, 2, 3, 4}"
    by (intro ballI) (rule getQuantile_range)
  then show ?thesis
    unfolding quartile_count_def by (rule four_way_count)
qed

section \<open>The examples, evaluated\<close>

text \<open>
  The sums and quotients of the examples. Those of 0.1, 0.2 and 0.3 are given with their
  exponent and significand: the sum of 0.1 and 0.2 and the sum of the result and 0.3 both
  fall halfway between two binary64 values and go to the even significand.
\<close>

lemma round64_tenth: "round64 (1 / 10) = Finite (3602879701896397 / 36028797018963968)"
  by (rule round64_eqI [where e = "- 4" and q = "- 56" and n = 7205759403792794])
     (simp_all add: powi_neg_numeral)

lemma round64_two_tenths: "round64 (2 / 10) = Finite (3602879701896397 / 18014398509481984)"
  by (rule round64_eqI [where e = "- 3" and q = "- 55" and n = 7205759403792794])
     (simp_all add: powi_neg_numeral)

lemma round64_fifth: "round64 (1 / 5) = Finite (3602879701896397 / 18014398509481984)"
  using round64_two_tenths by simp

lemma round64_three_tenths: "round64 (3 / 10) = Finite (5404319552844595 / 18014398509481984)"
  by (rule round64_eqI [where e = "- 2" and q = "- 54" and n = 5404319552844595])
     (simp_all add: powi_neg_numeral)

lemma fadd_tenths_12:
  "fadd (Finite (3602879701896397 / 36028797018963968))
        (Finite (3602879701896397 / 18014398509481984))
     = Finite (1351079888211149 / 4503599627370496)"
  unfolding fadd.simps
  by (rule round64_tieI [where e = "- 2" and q = "- 54" and f = 5404319552844595])
     (simp_all add: powi_neg_numeral)

lemma fadd_tenths_123:
  "fadd (Finite (1351079888211149 / 4503599627370496))
        (Finite (5404319552844595 / 18014398509481984))
     = Finite (1351079888211149 / 2251799813685248)"
  unfolding fadd.simps
  by (rule round64_tieI [where e = "- 1" and q = "- 53" and f = 5404319552844595])
     (simp_all add: powi_neg_numeral)

lemma fadd_tenths_32:
  "fadd (Finite (5404319552844595 / 18014398509481984))
        (Finite (3602879701896397 / 18014398509481984))
     = Finite (1 / 2)"
  unfolding fadd.simps
  by (rule round64_eqI [where e = "- 1" and q = "- 53" and n = 4503599627370496])
     (simp_all add: powi_neg_numeral)

lemma fadd_tenths_321:
  "fadd (Finite (1 / 2)) (Finite (3602879701896397 / 36028797018963968))
     = Finite (5404319552844595 / 9007199254740992)"
  unfolding fadd.simps
  by (rule round64_eqI [where e = "- 1" and q = "- 53" and n = 5404319552844595])
     (simp_all add: powi_neg_numeral)

lemma fdiv_100_3: "fdiv (Finite 100) 3 = Finite (4691249611844267 / 140737488355328)"
  unfolding fdiv.simps
  by (simp, rule round64_eqI [where e = 5 and q = "- 47" and n = 4691249611844267])
     (simp_all add: powi_neg_numeral)

lemmas ex_defs =
  customerData_of_def forEach_step_def customers_def calculateRFM_def scoreCustomer_def
  getQuantile_def getQuantile_number_def sortNumbers_def fsub_def getSegmentName_def
  tx_def ex_newDate_def ex_toISOString_def ex_now_def Let_def
  round64_numeral round64_neg_numeral

lemma ex_valid: "all_dates_valid ex_newDate ex_transactions"
  by (simp add: all_dates_valid_def ex_transactions_def tx_def ex_newDate_def)

lemma ex_binary64: "list_all is_binary64 (map transaction_amount ex_transactions)"
  by (simp add: ex_transactions_def tx_def round64_numeral)

lemma ex_customerData_eval:
  "customerData_of ex_newDate ex_transactions =
     [(''A'', \<lparr> transactions = 2, totalSpend = Finite 300, lastDate = Some 1706745600000 \<rparr>),
      (''B'', \<lparr> transactions = 1, totalSpend = Finite 50, lastDate = Some 1717200000000 \<rparr>)]"
  by (simp add: ex_transactions_def ex_defs)

lemma ex_customerData_rev_eval:
  "customerData_of ex_newDate (rev ex_transactions) =
     [(''B'', \<lparr> transactions = 1, totalSpend = Finite 50, lastDate = Some 1717200000000 \<rparr>),
      (''A'', \<lparr> transactions = 2, totalSpend = Finite 300, lastDate = Some 1706745600000 \<rparr>)]"
  by (simp add: ex_transactions_def ex_defs)

lemma ex_customers_eval: "customers ex_now ex_newDate ex_transactions = Inr ex_customers"
  by (simp add: customers_def ex_customerData_eval ex_customers_def ex_now_def)

lemma ex_scores_eval:
  "calculateRFM ex_now ex_newDate ex_toISOString ex_transactions = Inr [ex_score_A, ex_score_B]"
  unfolding calculateRFM_def ex_customers_eval
  by (simp add: ex_customers_def ex_score_A_def ex_score_B_def ex_defs)

lemma ex_four_customers_eval: "customers ex_now ex_newDate ex_four = Inr ex_four_customers"
  by (simp add: ex_four_def ex_four_customers_def ex_defs)

lemma ex_four_scores_eval:
  "calculateRFM ex_now ex_newDate ex_toISOString ex_four = Inr ex_four_scores"
  unfolding calculateRFM_def ex_four_customers_eval
  by (simp add: ex_four_customers_def ex_four_scores_def ex_defs)

lemma ex_ties_customers_eval: "customers ex_now ex_newDate ex_ties = Inr ex_ties_customers"
  by (simp add: ex_ties_def ex_ties_customers_def ex_defs)

lemma ex_ties_scores_eval:
  "calculateRFM ex_now ex_newDate ex_toISOString ex_ties = Inr ex_ties_scores"
  unfolding calculateRFM_def ex_ties_customers_eval
  by (simp add: ex_ties_customers_def ex_ties_scores_def ex_defs)

lemma ex_single_eval:
  "calculateRFM ex_now ex_newDate ex_toISOString ex_single = Inr [ex_single_score]"
  by (simp add: ex_single_def ex_single_score_def ex_defs)

lemma ex_thirds_eval:
  "calculateRFM ex_now ex_newDate ex_toISOString ex_thirds = Inr [ex_thirds_score]"
  by (simp add: ex_thirds_def ex_thirds_score_def ex_third_of_100_def ex_defs fdiv_100_3
      del: fdiv.simps)

lemma ex_tenths_eval:
  "customerData_of ex_newDate ex_tenths =
     [(''A'', \<lparr> transactions = 3, totalSpend = ex_above_six_tenths,
               lastDate = Some 1704067200000 \<rparr>)]"
  by (simp add: ex_tenths_def ex_above_six_tenths_def customerData_of_def forEach_step_def
      tx_def ex_newDate_def Let_def round64_tenth round64_fifth round64_three_tenths
      fadd_tenths_12 fadd_tenths_123 del: fadd.simps)

lemma ex_tenths_rev_eval:
  "customerData_of ex_newDate (rev ex_tenths) =
     [(''A'', \<lparr> transactions = 3, totalSpend = ex_six_tenths,
               lastDate = Some 1704067200000 \<rparr>)]"
  by (simp add: ex_tenths_def ex_six_tenths_def customerData_of_def forEach_step_def
      tx_def ex_newDate_def Let_def round64_tenth round64_fifth round64_three_tenths
      fadd_tenths_32 fadd_tenths_321 del: fadd.simps)

text \<open>
  A NaN total is not found in the sorted array and falls in the first group: with the
  totals 5 and NaN, two distinct values, both customers have monetary score 1.
\<close>

lemma ex_nan_eval:
  "map_sum id (map monetary) (customers ex_now ex_newDate ex_nan) = Inr [Finite 5, NaN]"
  "map_sum id (map monetary_score) (calculateRFM ex_now ex_newDate ex_toISOString ex_nan)
     = Inr [1, 1]"
  by (simp_all add: ex_nan_def ex_defs)

section \<open>The empty input\<close>

text \<open>
  C1, as the claim states it, fails: on the empty list the scorer returns the empty array
  as a normal result and raises nothing.
\<close>

theorem calculateRFM_empty_counterexample:
  "calculateRFM ex_now ex_newDate ex_toISOString [] = Inr []"
  by (simp add: calculateRFM_def customers_def customerData_of_def)

text \<open>
  C1 (amended): applied to the empty transaction list, \<^verbatim>\<open>calculateRFM\<close> returns the empty
  list of scores as a normal result, whatever the clock and the date functions are; it
  signals no error.
\<close>

theorem calculateRFM_empty:
  "calculateRFM now newDate toISOString [] = Inr []"
  by (simp add: calculateRFM_def customers_def customerData_of_def)

section \<open>Segment names\<close>

text \<open>
  C2, as the claim states it, fails: scores \<open>(1, 1, 1)\<close> do not reach the bucket by sum,
  the rule \<open>R \<le> 1 \<and> F \<le> 2\<close> takes them first.
\<close>

theorem getSegmentName_111_counterexample:
  "getSegmentName 1 1 1 = ''Lost Customers'' \<and> getSegmentName 1 1 1 \<noteq> ''Low Value''"
  by (simp add: getSegmentName_def)

text \<open>
  C2 (amended): \<^verbatim>\<open>getSegmentName\<close> evaluates the documented rule chain in order, the first
  match winning and the bucket by sum taking what no rule matches; scores \<open>(4, 4, 4)\<close> give
  "Champions" and scores \<open>(1, 1, 1)\<close> give "Lost Customers".
\<close>

theorem getSegmentName_first_match:
  "getSegmentName r f m = first_match segment_rules sum_bucket (r, f, m)
   \<and> getSegmentName 4 4 4 = ''Champions''
   \<and> getSegmentName 1 1 1 = ''Lost Customers''"
  by (simp add: getSegmentName_def segment_rules_def sum_bucket_def Let_def)

section \<open>Quartile groups\<close>

text \<open>
  C3, as the claim states it, fails: four customers with pairwise distinct recency,
  frequency and monetary values get monetary and frequency scores \<open>1, 1, 2, 3\<close> and
  recency scores \<open>2, 3, 4, 4\<close>, so on each metric one group has two customers and one
  group has none.
\<close>

theorem quartile_groups_counterexample:
  "customers ex_now ex_newDate ex_four = Inr ex_four_customers
   \<and> distinct (map recency ex_four_customers)
   \<and> distinct (map frequency ex_four_customers)
   \<and> distinct (map monetary ex_four_customers)
   \<and> calculateRFM ex_now ex_newDate ex_toISOString ex_four = Inr ex_four_scores
   \<and> score_count recency_score ex_four_scores 4 = 2
   \<and> score_count recency_score ex_four_scores 1 = 0
   \<and> score_count frequency_score ex_four_scores 1 = 2
   \<and> score_count frequency_score ex_four_scores 4 = 0
   \<and> score_count monetary_score ex_four_scores 1 = 2
   \<and> score_count monetary_score ex_four_scores 4 = 0"
proof -
  have "distinct (map recency ex_four_customers)"
    "distinct (map frequency ex_four_customers)"
    "distinct (map monetary ex_four_customers)"
    by (simp_all add: ex_four_customers_def)
  moreover have "score_count recency_score ex_four_scores 4 = 2"
    "score_count recency_score ex_four_scores 1 = 0"
    "score_count frequency_score ex_four_scores 1 = 2"
    "score_count frequency_score ex_four_scores 4 = 0"
    "score_count monetary_score ex_four_scores 1 = 2"
    "score_count monetary_score ex_four_scores 4 = 0"
    by (simp_all add: score_count_def ex_four_scores_def)
  ultimately show ?thesis
    using ex_four_customers_eval ex_four_scores_eval by simp
qed

text \<open>
  C3 (amended): for every non-empty cohort whose customers have pairwise distinct recency
  values (and likewise for frequency, and for monetary when no total is NaN), the scores
  of that metric partition the customers into four groups whose sizes differ by at most 2,
  and by at most 1 when the number of customers is not a multiple of 4. Values are
  distinct as \<^verbatim>\<open>===\<close> compares them, the two zeros being one value. (For the totals the
  amounts of the model are taken to be binary64 values, as every JavaScript number is.)
\<close>

theorem quartile_groups_balanced:
  assumes cs: "customers now newDate ts = Inr cs"
    and out: "calculateRFM now newDate toISOString ts = Inr out"
    and ne: "cs \<noteq> []"
    and q: "q \<in> {1, 2, 3, 4}" and q': "q' \<in> {1, 2, 3, 4}"
  shows "(distinct (map recency cs) \<longrightarrow>
           \<bar>int (score_count recency_score out q) - int (score_count recency_score out q')\<bar> \<le> 2
           \<and> (length cs mod 4 \<noteq> 0 \<longrightarrow>
                \<bar>int (score_count recency_score out q) - int (score_count recency_score out q')\<bar> \<le> 1))
       \<and> (distinct (map frequency cs) \<longrightarrow>
           \<bar>int (score_count frequency_score out q) - int (score_count frequency_score out q')\<bar> \<le> 2
           \<and> (length cs mod 4 \<noteq> 0 \<longrightarrow>
                \<bar>int (score_count frequency_score out q) - int (score_count frequency_score out q')\<bar> \<le> 1))
       \<and> (distinct (map monetary cs) \<and> NaN \<notin> set (map monetary cs)
            \<and> list_all is_binary64 (map transaction_amount ts) \<longrightarrow>
           \<bar>int (score_count monetary_score out q) - int (score_count monetary_score out q')\<bar> \<le> 2
           \<and> (length cs mod 4 \<noteq> 0 \<longrightarrow>
                \<bar>int (score_count monetary_score out q) - int (score_count monetary_score out q')\<bar> \<le> 1))
       \<and> score_count recency_score out 1 + score_count recency_score out 2
           + score_count recency_score out 3 + score_count recency_score out 4 = length cs
       \<and> score_count frequency_score out 1 + score_count frequency_score out 2
           + score_count frequency_score out 3 + score_count frequency_score out 4 = length cs
       \<and> score_count monetary_score out 1 + score_count monetary_score out 2
           + score_count monetary_score out 3 + score_count monetary_score out 4 = length cs"
proof -
  from q have q5: "5 - q \<in> {1, 2, 3, 4}" by auto
  from q' have q5': "5 - q' \<in> {1, 2, 3, 4}" by auto
  note r = score_count_recency [OF cs out]
  note f = score_count_frequency [OF cs out]
  have "\<bar>int (score_count recency_score out q) - int (score_count recency_score out q')\<bar> \<le> 2
      \<and> (length cs mod 4 \<noteq> 0 \<longrightarrow>
           \<bar>int (score_count recency_score out q) - int (score_count recency_score out q')\<bar> \<le> 1)"
    if d: "distinct (map recency cs)"
    using quartile_count_balanced [OF d _ q5 q5'] ne unfolding r by simp
  moreover
  have "\<bar>int (score_count frequency_score out q) - int (score_count frequency_score out q')\<bar> \<le> 2
      \<and> (length cs mod 4 \<noteq> 0 \<longrightarrow>
           \<bar>int (score_count frequency_score out q) - int (score_count frequency_score out q')\<bar> \<le> 1)"
    if d: "distinct (map frequency cs)"
    using quartile_count_balanced [OF d _ q q'] ne unfolding f by simp
  moreover
  have "\<bar>int (score_count monetary_score out q) - int (score_count monetary_score out q')\<bar> \<le> 2
      \<and> (length cs mod 4 \<noteq> 0 \<longrightarrow>
           \<bar>int (score_count monetary_score out q) - int (score_count monetary_score out q')\<bar> \<le> 1)"
    if d: "distinct (map monetary cs)" and n: "NaN \<notin> set (map monetary cs)"
      and bin: "list_all is_binary64 (map transaction_amount ts)"
    using quartile_count_balanced [OF d _ q q'] ne
    unfolding score_count_monetary [OF cs out bin n] by simp
  moreover
  have "score_count recency_score out 1 + score_count recency_score out 2
      + score_count recency_score out 3 + score_count recency_score out 4 = length cs"
    using quartile_count_total [of "map recency cs"] unfolding r by simp
  moreover
  have "score_count frequency_score out 1 + score_count frequency_score out 2
      + score_count frequency_score out 3 + score_count frequency_score out 4 = length cs"
    using quartile_count_total [of "map frequency cs"] unfolding f by simp
  moreover
  have "score_count monetary_score out 1 + score_count monetary_score out 2
      + score_count monetary_score out 3 + score_count monetary_score out 4 = length cs"
    by (rule score_count_total [OF cs out])
       (simp only: scoreCustomer_simps getQuantile_number_range)
  ultimately show ?thesis by blast
qed

text \<open>
  C3, a witness: the two customers of the example differ on the three metrics, no total
  is NaN, and on each metric the groups have sizes 1, 1, 0 and 0.
\<close>

theorem quartile_groups_balanced_witness:
  "customers ex_now ex_newDate ex_transactions = Inr ex_customers
   \<and> calculateRFM ex_now ex_newDate ex_toISOString ex_transactions = Inr [ex_score_A, ex_score_B]
   \<and> ex_customers \<noteq> []
   \<and> list_all is_binary64 (map transaction_amount ex_transactions)
   \<and> distinct (map recency ex_customers)
   \<and> distinct (map frequency ex_customers)
   \<and> distinct (map monetary ex_customers)
   \<and> NaN \<notin> set (map monetary ex_customers)
   \<and> \<bar>int (score_count recency_score [ex_score_A, ex_score_B] 4)
        - int (score_count recency_score [ex_score_A, ex_score_B] 1)\<bar> \<le> 1
   \<and> \<bar>int (score_count frequency_score [ex_score_A, ex_score_B] 4)
        - int (score_count frequency_score [ex_score_A, ex_score_B] 1)\<bar> \<le> 1
   \<and> \<bar>int (score_count monetary_score [ex_score_A, ex_score_B] 4)
        - int (score_count monetary_score [ex_score_A, ex_score_B] 1)\<bar> \<le> 1"
proof -
  have ne: "ex_customers \<noteq> []" by (simp add: ex_customers_def)
  have d: "distinct (map recency ex_customers)" "distinct (map frequency ex_customers)"
    "distinct (map monetary ex_customers)" "NaN \<notin> set (map monetary ex_customers)"
    by (simp_all add: ex_customers_def)
  have l: "length ex_customers mod 4 \<noteq> 0" by (simp add: ex_customers_def)
  from quartile_groups_balanced [OF ex_customers_eval ex_scores_eval ne, of 4 1] d l
    ex_binary64
  have "\<bar>int (score_count recency_score [ex_score_A, ex_score_B] 4)
        - int (score_count recency_score [ex_score_A, ex_score_B] 1)\<bar> \<le> 1"
    "\<bar>int (score_count frequency_score [ex_score_A, ex_score_B] 4)
        - int (score_count frequency_score [ex_score_A, ex_score_B] 1)\<bar> \<le> 1"
    "\<bar>int (score_count monetary_score [ex_score_A, ex_score_B] 4)
        - int (score_count monetary_score [ex_score_A, ex_score_B] 1)\<bar> \<le> 1"
    by simp_all
  with ex_customers_eval ex_scores_eval ne ex_binary64 d show ?thesis by simp
qed

section \<open>Ties\<close>

text \<open>
  C4: the quantile is looked up by value, so two customers of one cohort with equal
  recency values have equal recency scores, and the same holds for frequency and for
  monetary. (The rank is the first index of the value in the sorted array, see
  \<open>indexOf_first\<close>.) Output record \<open>i\<close> is the record of customer \<open>i\<close>.
\<close>

theorem equal_values_equal_scores:
  assumes cs: "customers now newDate ts = Inr cs"
    and out: "calculateRFM now newDate toISOString ts = Inr out"
    and i: "i < length cs" and j: "j < length cs"
  shows "(recency (cs ! i) = recency (cs ! j)
            \<longrightarrow> recency_score (out ! i) = recency_score (out ! j))
       \<and> (frequency (cs ! i) = frequency (cs ! j)
            \<longrightarrow> frequency_score (out ! i) = frequency_score (out ! j))
       \<and> (monetary (cs ! i) = monetary (cs ! j)
            \<longrightarrow> monetary_score (out ! i) = monetary_score (out ! j))"
  unfolding calculateRFM_nth [OF cs out i] calculateRFM_nth [OF cs out j] scoreCustomer_simps
  by simp

text \<open>C4, a witness: customers \<open>A\<close> and \<open>B\<close> tie on the three metrics and on the three scores.\<close>

theorem equal_values_equal_scores_witness:
  "customers ex_now ex_newDate ex_ties = Inr ex_ties_customers
   \<and> calculateRFM ex_now ex_newDate ex_toISOString ex_ties = Inr ex_ties_scores
   \<and> 0 < length ex_ties_customers \<and> 1 < length ex_ties_customers
   \<and> recency (ex_ties_customers ! 0) = recency (ex_ties_customers ! 1)
   \<and> frequency (ex_ties_customers ! 0) = frequency (ex_ties_customers ! 1)
   \<and> monetary (ex_ties_customers ! 0) = monetary (ex_ties_customers ! 1)
   \<and> recency_score (ex_ties_scores ! 0) = recency_score (ex_ties_scores ! 1)
   \<and> frequency_score (ex_ties_scores ! 0) = frequency_score (ex_ties_scores ! 1)
   \<and> monetary_score (ex_ties_scores ! 0) = monetary_score (ex_ties_scores ! 1)"
proof -
  have i: "0 < length ex_ties_customers" and j: "1 < length ex_ties_customers"
    by (simp_all add: ex_ties_customers_def)
  have e: "recency (ex_ties_customers ! 0) = recency (ex_ties_customers ! 1)"
    "frequency (ex_ties_customers ! 0) = frequency (ex_ties_customers ! 1)"
    "monetary (ex_ties_customers ! 0) = monetary (ex_ties_customers ! 1)"
    by (simp_all add: ex_ties_customers_def)
  from equal_values_equal_scores [OF ex_ties_customers_eval ex_ties_scores_eval i j] e
  have "recency_score (ex_ties_scores ! 0) = recency_score (ex_ties_scores ! 1)"
    "frequency_score (ex_ties_scores ! 0) = frequency_score (ex_ties_scores ! 1)"
    "monetary_score (ex_ties_scores ! 0) = monetary_score (ex_ties_scores ! 1)"
    by simp_all
  with ex_ties_customers_eval ex_ties_scores_eval i j e show ?thesis by simp
qed

section \<open>One record per customer\<close>

text \<open>
  C5, as the claim states it, fails: a customer whose only transaction has a date that
  does not parse makes the scorer throw \<^verbatim>\<open>RangeError\<close> (from \<^verbatim>\<open>toISOString\<close> on the Invalid
  Date), so no record is returned.
\<close>

theorem one_score_per_customer_counterexample:
  "calculateRFM ex_now ex_newDate ex_toISOString [tx ''A'' ''n/a'' (Finite 10)] = Inl RangeError"
  by (simp add: ex_defs)

text \<open>
  C5 (amended): for every transaction list whose transaction dates all parse,
  \<^verbatim>\<open>calculateRFM\<close> returns exactly one record per distinct \<^verbatim>\<open>customer_id\<close> of the input: every
  input \<^verbatim>\<open>customer_id\<close> appears in the output and none appears twice; the records come in
  the order in which the customers first occur in the input.
\<close>

theorem one_score_per_customer:
  assumes "all_dates_valid newDate ts"
  shows "\<exists>out. calculateRFM now newDate toISOString ts = Inr out
           \<and> distinct (map s_customer_id out)
           \<and> set (map s_customer_id out) = customer_id ` set ts
           \<and> map s_customer_id out = rev (remdups (rev (map customer_id ts)))"
proof -
  from customers_valid [OF assms] obtain cs where cs: "customers now newDate ts = Inr cs"
    by blast
  let ?out = "map (scoreCustomer toISOString (sort (map recency cs)) (sort (map frequency cs))
                (sortNumbers (map monetary cs))) cs"
  have ids: "map s_customer_id ?out = map fst (customerData_of newDate ts)"
    using customers_ids [OF cs] by (simp add: comp_def scoreCustomer_simps)
  have "calculateRFM now newDate toISOString ts = Inr ?out"
    using cs by (rule calculateRFM_Inr)
  moreover have "distinct (map s_customer_id ?out)"
    unfolding ids by (rule distinct_customerData_of)
  moreover have "set (map s_customer_id ?out) = customer_id ` set ts"
    unfolding ids using keys_customerData_of [of newDate ts] by simp
  moreover have "map s_customer_id ?out = rev (remdups (rev (map customer_id ts)))"
    unfolding ids by (rule customerData_of_order)
  ultimately show ?thesis by blast
qed

text \<open>C5, a witness: the example has the customers \<open>A\<close> and \<open>B\<close> and gives one record for each.\<close>

theorem one_score_per_customer_witness:
  "all_dates_valid ex_newDate ex_transactions
   \<and> calculateRFM ex_now ex_newDate ex_toISOString ex_transactions = Inr [ex_score_A, ex_score_B]
   \<and> distinct (map s_customer_id [ex_score_A, ex_score_B])
   \<and> set (map s_customer_id [ex_score_A, ex_score_B]) = customer_id ` set ex_transactions"
proof -
  from one_score_per_customer [OF ex_valid, of ex_now ex_toISOString] ex_scores_eval
  have "distinct (map s_customer_id [ex_score_A, ex_score_B])
      \<and> set (map s_customer_id [ex_score_A, ex_score_B]) = customer_id ` set ex_transactions"
    by auto
  with ex_valid ex_scores_eval show ?thesis by simp
qed

section \<open>Recency scores\<close>

text \<open>
  C6: the recency score is non-increasing in the days since the last transaction: of two
  customers of one cohort, the one with the smaller or equal recency (in whole days) has
  the greater or equal recency score, the score being 5 minus the quartile of the recency
  among the sorted recencies of the cohort. Output record \<open>i\<close> is the record of customer
  \<open>i\<close>.
\<close>

theorem recency_score_antitone:
  assumes cs: "customers now newDate ts = Inr cs"
    and out: "calculateRFM now newDate toISOString ts = Inr out"
    and i: "i < length cs" and j: "j < length cs"
    and le: "recency (cs ! i) \<le> recency (cs ! j)"
  shows "recency_score (out ! i) \<ge> recency_score (out ! j)
       \<and> recency_score (out ! i) = 5 - getQuantile (sort (map recency cs)) (recency (cs ! i))
       \<and> recency_score (out ! j) = 5 - getQuantile (sort (map recency cs)) (recency (cs ! j))"
proof -
  let ?rv = "sort (map recency cs)"
  have "sorted ?rv" by simp
  moreover have "recency (cs ! i) \<in> set ?rv" using i by simp
  moreover have "recency (cs ! j) \<in> set ?rv" using j by simp
  ultimately have "getQuantile ?rv (recency (cs ! i)) \<le> getQuantile ?rv (recency (cs ! j))"
    using le by (rule getQuantile_mono_sorted)
  then show ?thesis
    unfolding calculateRFM_nth [OF cs out i] calculateRFM_nth [OF cs out j] scoreCustomer_simps
    by simp
qed

text \<open>
  C6, a witness: in the example customer \<open>B\<close> (1 day) is more recent than customer \<open>A\<close>
  (122 days) and has the higher recency score, 4 against 3.
\<close>

theorem recency_score_antitone_witness:
  "customers ex_now ex_newDate ex_transactions = Inr ex_customers
   \<and> calculateRFM ex_now ex_newDate ex_toISOString ex_transactions = Inr [ex_score_A, ex_score_B]
   \<and> 1 < length ex_customers \<and> 0 < length ex_customers
   \<and> recency (ex_customers ! 1) \<le> recency (ex_customers ! 0)
   \<and> recency_score ([ex_score_A, ex_score_B] ! 0) \<le> recency_score ([ex_score_A, ex_score_B] ! 1)"
proof -
  have i: "1 < length ex_customers" and j: "0 < length ex_customers"
    and le: "recency (ex_customers ! 1) \<le> recency (ex_customers ! 0)"
    by (simp_all add: ex_customers_def)
  from recency_score_antitone [OF ex_customers_eval ex_scores_eval i j le]
  have "recency_score ([ex_score_A, ex_score_B] ! 0) \<le> recency_score ([ex_score_A, ex_score_B] ! 1)"
    by blast
  with ex_customers_eval ex_scores_eval i j le show ?thesis by simp
qed

section \<open>Aggregation and the order of the input\<close>

text \<open>
  C7, as the claim states it, fails, on the latest date and on the total spend. With a
  date that does not parse the latest date depends on the order: a comparison with the
  Invalid Date is false, so an unparseable first date stays, while an unparseable later
  date is passed over. With all dates valid the total spend depends on the order, every
  addition being rounded: the amounts 0.1, 0.2 and 0.3 sum to 0.6000000000000001 and, in
  the reverse order, to 0.6. In both cases the second list is the first one reversed.
\<close>

theorem aggregation_order_counterexample:
  "customerData_of ex_newDate ex_unparsed
     = [(''A'', \<lparr> transactions = 2, totalSpend = Finite 30, lastDate = None \<rparr>)]
   \<and> customerData_of ex_newDate (rev ex_unparsed)
     = [(''A'', \<lparr> transactions = 2, totalSpend = Finite 30, lastDate = Some 1704067200000 \<rparr>)]
   \<and> all_dates_valid ex_newDate ex_tenths
   \<and> customerData_of ex_newDate ex_tenths
     = [(''A'', \<lparr> transactions = 3, totalSpend = ex_above_six_tenths,
                 lastDate = Some 1704067200000 \<rparr>)]
   \<and> customerData_of ex_newDate (rev ex_tenths)
     = [(''A'', \<lparr> transactions = 3, totalSpend = ex_six_tenths,
                 lastDate = Some 1704067200000 \<rparr>)]
   \<and> ex_above_six_tenths \<noteq> ex_six_tenths"
proof -
  have "customerData_of ex_newDate ex_unparsed
     = [(''A'', \<lparr> transactions = 2, totalSpend = Finite 30, lastDate = None \<rparr>)]"
    by (simp add: ex_unparsed_def ex_defs)
  moreover have "customerData_of ex_newDate (rev ex_unparsed)
     = [(''A'', \<lparr> transactions = 2, totalSpend = Finite 30, lastDate = Some 1704067200000 \<rparr>)]"
    by (simp add: ex_unparsed_def ex_defs)
  moreover have "all_dates_valid ex_newDate ex_tenths"
    by (simp add: all_dates_valid_def ex_tenths_def tx_def ex_newDate_def)
  moreover have "ex_above_six_tenths \<noteq> ex_six_tenths"
    by (simp add: ex_above_six_tenths_def ex_six_tenths_def)
  ultimately show ?thesis
    using ex_tenths_eval ex_tenths_rev_eval by simp
qed

text \<open>
  C7 (amended): for every transaction list whose transaction dates all parse and every
  permutation of it, each customer's transaction count and latest transaction date are
  identical, the latest date being the greatest of the customer's dates also when the
  transactions arrive out of chronological order. The total spend is the sum from left to
  right with every addition rounded to binary64; it is identical for the two orders
  whenever no addition rounds in either.
\<close>

theorem aggregation_order_independent:
  assumes valid: "all_dates_valid newDate ts"
    and perm: "mset ts' = mset ts"
  shows "map_option transactions (map_of (customerData_of newDate ts') c)
           = map_option transactions (map_of (customerData_of newDate ts) c)
       \<and> map_option lastDate (map_of (customerData_of newDate ts') c)
           = map_option lastDate (map_of (customerData_of newDate ts) c)
       \<and> (\<forall>d. map_of (customerData_of newDate ts) c = Some d \<longrightarrow>
             transactions d = int (length (transactions_of c ts))
             \<and> lastDate d = Some (Max (times_of newDate (transactions_of c ts)))
             \<and> totalSpend d = running_sum (map transaction_amount (transactions_of c ts)))
       \<and> (sums_exact (map transaction_amount (transactions_of c ts))
           \<and> sums_exact (map transaction_amount (transactions_of c ts'))
           \<longrightarrow> map_of (customerData_of newDate ts') c = map_of (customerData_of newDate ts) c)"
proof -
  let ?xs = "transactions_of c ts" and ?xs' = "transactions_of c ts'"
  have m: "mset ?xs' = mset ?xs" using perm by (rule transactions_of_mset)
  have valid': "all_dates_valid newDate ts'"
    using valid all_dates_valid_mset [OF perm] by simp
  have expl: "\<forall>d. map_of (customerData_of newDate ts) c = Some d \<longrightarrow>
             transactions d = int (length ?xs)
             \<and> lastDate d = Some (Max (times_of newDate ?xs))
             \<and> totalSpend d = running_sum (map transaction_amount ?xs)"
    using customerData_of_counts customerData_of_lastDate [OF valid] by blast
  show ?thesis
  proof (cases "map_of (customerData_of newDate ts) c")
    case None
    then have "?xs = []" by (simp add: map_of_customerData_of_None)
    with m have "?xs' = []" by simp
    then have "map_of (customerData_of newDate ts') c = None"
      by (simp add: map_of_customerData_of_None)
    with None show ?thesis by simp
  next
    case (Some d)
    then have ne: "?xs \<noteq> []"
      using map_of_customerData_of_None [of newDate ts c] by simp
    with m have ne': "?xs' \<noteq> []" by auto
    then obtain d' where d': "map_of (customerData_of newDate ts') c = Some d'"
      using map_of_customerData_of_None [of newDate ts' c] by auto
    have len: "length ?xs' = length ?xs"
      using m by (rule mset_eq_length)
    have tm: "times_of newDate ?xs' = times_of newDate ?xs"
      using m by (rule times_of_mset)
    have t: "transactions d' = transactions d"
      using customerData_of_counts [OF Some] customerData_of_counts [OF d'] len by simp
    have l: "lastDate d' = lastDate d"
      using customerData_of_lastDate [OF valid Some] customerData_of_lastDate [OF valid' d'] tm
      by simp
    have "d' = d"
      if e: "sums_exact (map transaction_amount ?xs)"
        and e': "sums_exact (map transaction_amount ?xs')"
    proof (rule customerData_eqI [OF t _ l])
      have "mset (map transaction_amount ?xs') = mset (map transaction_amount ?xs)"
        using m by simp
      from sum_list_value_of_mset [OF this]
      have "running_sum (map transaction_amount ?xs') = running_sum (map transaction_amount ?xs)"
        using sums_exact_running [OF e] sums_exact_running [OF e'] ne ne' by simp
      then show "totalSpend d' = totalSpend d"
        using customerData_of_counts [OF Some] customerData_of_counts [OF d'] by simp
    qed
    with Some d' t l expl show ?thesis by simp
  qed
qed

text \<open>
  C7, a witness: the example reversed lists the transactions of customer \<open>A\<close> out of
  chronological order; no addition rounds, and the aggregate of \<open>A\<close> is the same: 2
  transactions, 300 spent, last date 2024-02-01.
\<close>

theorem aggregation_order_independent_witness:
  "all_dates_valid ex_newDate ex_transactions
   \<and> mset (rev ex_transactions) = mset ex_transactions
   \<and> sums_exact (map transaction_amount (transactions_of ''A'' ex_transactions))
   \<and> sums_exact (map transaction_amount (transactions_of ''A'' (rev ex_transactions)))
   \<and> map_of (customerData_of ex_newDate (rev ex_transactions)) ''A''
       = map_of (customerData_of ex_newDate ex_transactions) ''A''
   \<and> map_of (customerData_of ex_newDate ex_transactions) ''A''
       = Some \<lparr> transactions = 2, totalSpend = Finite 300, lastDate = Some 1706745600000 \<rparr>"
proof -
  have p: "mset (rev ex_transactions) = mset ex_transactions" by simp
  have e: "sums_exact (map transaction_amount (transactions_of ''A'' ex_transactions))"
    "sums_exact (map transaction_amount (transactions_of ''A'' (rev ex_transactions)))"
    by (simp_all add: ex_transactions_def transactions_of_def tx_def round64_numeral)
  have v: "map_of (customerData_of ex_newDate ex_transactions) ''A''
       = Some \<lparr> transactions = 2, totalSpend = Finite 300, lastDate = Some 1706745600000 \<rparr>"
    by (simp add: ex_customerData_eval)
  from aggregation_order_independent [OF ex_valid p, of "''A''"] e
  have "map_of (customerData_of ex_newDate (rev ex_transactions)) ''A''
      = map_of (customerData_of ex_newDate ex_transactions) ''A''"
    by blast
  with ex_valid p e v show ?thesis by simp
qed

section \<open>Ranges and averages\<close>

text \<open>
  C8: every record that \<^verbatim>\<open>calculateRFM\<close> returns has its recency, frequency and monetary
  scores among the integers 1, 2, 3 and 4.
\<close>

theorem scores_in_range:
  assumes "calculateRFM now newDate toISOString ts = Inr out" and "s \<in> set out"
  shows "recency_score s \<in> {1, 2, 3, 4} \<and> frequency_score s \<in> {1, 2, 3, 4}
         \<and> monetary_score s \<in> {1, 2, 3, 4}"
proof -
  from calculateRFM_Inr_customers [OF assms(1)] assms(2)
  obtain rv fv mv c where s: "s = scoreCustomer toISOString rv fv mv c" by auto
  have "5 - getQuantile rv (recency c) \<in> {1, 2, 3, 4}"
    using getQuantile_range [of rv "recency c"] by auto
  with getQuantile_range [of fv "frequency c"] getQuantile_number_range [of mv "monetary c"]
  show ?thesis unfolding s scoreCustomer_simps by blast
qed

text \<open>C8, a witness: the record of customer \<open>A\<close> in the example has the scores 3, 2 and 2.\<close>

theorem scores_in_range_witness:
  "calculateRFM ex_now ex_newDate ex_toISOString ex_transactions = Inr [ex_score_A, ex_score_B]
   \<and> ex_score_A \<in> set [ex_score_A, ex_score_B]
   \<and> recency_score ex_score_A \<in> {1, 2, 3, 4}
   \<and> frequency_score ex_score_A \<in> {1, 2, 3, 4}
   \<and> monetary_score ex_score_A \<in> {1, 2, 3, 4}"
proof -
  have a: "ex_score_A \<in> set [ex_score_A, ex_score_B]" by simp
  from scores_in_range [OF ex_scores_eval a] ex_scores_eval a show ?thesis by blast
qed

text \<open>
  C9, as the claim states it, fails: the average is the quotient rounded to binary64, not
  the exact quotient. A customer with the amounts 50, 25 and 25 has a total of 100 over 3
  transactions and the average 33.333333333333336, which is not a third of 100. (The
  total is rounded too: the amounts 0.1, 0.2 and 0.3 have the total 0.6000000000000001.)
\<close>

theorem avg_spend_counterexample:
  "calculateRFM ex_now ex_newDate ex_toISOString ex_thirds = Inr [ex_thirds_score]
   \<and> total_transactions ex_thirds_score = 3
   \<and> total_spend ex_thirds_score = Finite 100
   \<and> avg_spend ex_thirds_score = Finite (4691249611844267 / 140737488355328)
   \<and> avg_spend ex_thirds_score \<noteq> Finite (100 / 3)"
proof -
  have "total_transactions ex_thirds_score = 3" "total_spend ex_thirds_score = Finite 100"
    "avg_spend ex_thirds_score = Finite (4691249611844267 / 140737488355328)"
    "avg_spend ex_thirds_score \<noteq> Finite (100 / 3)"
    by (simp_all add: ex_thirds_score_def ex_third_of_100_def)
  with ex_thirds_eval show ?thesis by simp
qed

text \<open>
  C9 (amended): in every record that \<^verbatim>\<open>calculateRFM\<close> returns, \<^verbatim>\<open>total_transactions\<close> is at
  least 1 and is the number of the customer's transactions; \<^verbatim>\<open>total_spend\<close> is the sum of
  the customer's amounts from left to right in input order, every addition rounded to
  binary64, which is their exact sum when no addition rounds; and \<^verbatim>\<open>avg_spend\<close> is
  \<^verbatim>\<open>total_spend / total_transactions\<close> in binary64 arithmetic, that is, for a finite total,
  the exact quotient rounded to the nearest binary64 value.
\<close>

theorem avg_spend_rounded:
  assumes "calculateRFM now newDate toISOString ts = Inr out" and "s \<in> set out"
  shows "total_transactions s \<ge> 1
       \<and> total_transactions s = int (length (transactions_of (s_customer_id s) ts))
       \<and> total_spend s
           = running_sum (map transaction_amount (transactions_of (s_customer_id s) ts))
       \<and> (sums_exact (map transaction_amount (transactions_of (s_customer_id s) ts)) \<longrightarrow>
            total_spend s = Finite (sum_list (map value_of
              (map transaction_amount (transactions_of (s_customer_id s) ts)))))
       \<and> avg_spend s = fdiv (total_spend s) (total_transactions s)
       \<and> (\<forall>q. total_spend s = Finite q \<longrightarrow>
            avg_spend s = round64 (q / of_int (total_transactions s)))"
proof -
  from calculateRFM_Inr_customers [OF assms(1)] assms(2)
  obtain cs rv fv mv c where cs: "customers now newDate ts = Inr cs" and c: "c \<in> set cs"
    and s: "s = scoreCustomer toISOString rv fv mv c" by auto
  from customers_entry [OF cs c] obtain d
    where d: "map_of (customerData_of newDate ts) (c_customer_id c) = Some d"
      and t: "toCustomer now (c_customer_id c, d) = Inr c" by blast
  let ?as = "map transaction_amount (transactions_of (c_customer_id c) ts)"
  from toCustomer_Inr [OF t] have f: "frequency c = transactions d"
    and m: "monetary c = totalSpend d" by simp_all
  from d have ne: "transactions_of (c_customer_id c) ts \<noteq> []"
    using map_of_customerData_of_None [of newDate ts "c_customer_id c"] by simp
  then have len: "length (transactions_of (c_customer_id c) ts) \<ge> 1"
    by (cases "transactions_of (c_customer_id c) ts") simp_all
  from customerData_of_counts [OF d] f m
  have fr: "frequency c = int (length (transactions_of (c_customer_id c) ts))"
    and mo: "monetary c = running_sum ?as" by simp_all
  have ex: "monetary c = Finite (sum_list (map value_of ?as))" if "sums_exact ?as"
    using sums_exact_running [OF that] ne mo by simp
  have av: "fdiv (monetary c) (frequency c) = round64 (q / of_int (frequency c))"
    if "monetary c = Finite q" for q
  proof -
    from ne fr have "frequency c \<noteq> 0" by simp
    with that show ?thesis by simp
  qed
  from len fr mo ex av show ?thesis
    unfolding s scoreCustomer_simps by simp
qed

text \<open>
  C9, a witness: customer \<open>A\<close> of the example has 2 transactions of 100 and 200, a total
  of 300 and an average of 150, all of them exact.
\<close>

theorem avg_spend_rounded_witness:
  "calculateRFM ex_now ex_newDate ex_toISOString ex_transactions = Inr [ex_score_A, ex_score_B]
   \<and> ex_score_A \<in> set [ex_score_A, ex_score_B]
   \<and> sums_exact (map transaction_amount (transactions_of (s_customer_id ex_score_A) ex_transactions))
   \<and> total_transactions ex_score_A = 2
   \<and> total_spend ex_score_A = Finite 300
   \<and> avg_spend ex_score_A = Finite 150
   \<and> avg_spend ex_score_A = fdiv (total_spend ex_score_A) (total_transactions ex_score_A)
   \<and> total_spend ex_score_A
       = running_sum (map transaction_amount
           (transactions_of (s_customer_id ex_score_A) ex_transactions))"
proof -
  have a: "ex_score_A \<in> set [ex_score_A, ex_score_B]" by simp
  have e: "sums_exact (map transaction_amount
             (transactions_of (s_customer_id ex_score_A) ex_transactions))"
    by (simp add: ex_score_A_def ex_transactions_def transactions_of_def tx_def round64_numeral)
  have v: "total_transactions ex_score_A = 2" "total_spend ex_score_A = Finite 300"
    "avg_spend ex_score_A = Finite 150"
    by (simp_all add: ex_score_A_def)
  from avg_spend_rounded [OF ex_scores_eval a] ex_scores_eval a e v show ?thesis by blast
qed

section \<open>A single customer\<close>

text \<open>
  C10: when the input is not empty and all its transactions have one \<^verbatim>\<open>customer_id\<close>, the
  only record that \<^verbatim>\<open>calculateRFM\<close> returns has recency score 4, frequency score 1 and
  monetary score 1, whatever the dates and the amounts are.
\<close>

theorem single_customer_scores:
  assumes ne: "ts \<noteq> []" and one: "\<forall>t \<in> set ts. customer_id t = c"
    and out: "calculateRFM now newDate toISOString ts = Inr out"
  shows "\<exists>s. out = [s] \<and> s_customer_id s = c
           \<and> recency_score s = 4 \<and> frequency_score s = 1 \<and> monetary_score s = 1"
proof -
  from calculateRFM_Inr_customers [OF out] obtain cs
    where cs: "customers now newDate ts = Inr cs"
      and o: "out = map (scoreCustomer toISOString (sort (map recency cs))
                (sort (map frequency cs)) (sortNumbers (map monetary cs))) cs" by blast
  have "map c_customer_id cs = rev (remdups (rev (map customer_id ts)))"
    using customers_ids [OF cs] customerData_of_order by simp
  moreover have "map customer_id ts = replicate (length ts) c"
    using one by (simp add: map_replicate_const [symmetric] cong: map_cong)
  moreover have "remdups (replicate (length ts) c) = [c]"
    using ne remdups_replicate_Suc [of "length ts - 1" c] by simp
  ultimately have "map c_customer_id cs = [c]" by simp
  then obtain x where x: "cs = [x]" and xc: "c_customer_id x = c" by auto
  show ?thesis
    unfolding o x using xc
    by (simp add: scoreCustomer_simps getQuantile_singleton getQuantile_number_singleton)
qed

text \<open>
  C10, a witness: two transactions of customer \<open>A\<close> give one record, with the scores 4, 1
  and 1.
\<close>

theorem single_customer_scores_witness:
  "ex_single \<noteq> []
   \<and> list_all (\<lambda>t. customer_id t = ''A'') ex_single
   \<and> calculateRFM ex_now ex_newDate ex_toISOString ex_single = Inr [ex_single_score]
   \<and> recency_score ex_single_score = 4
   \<and> frequency_score ex_single_score = 1
   \<and> monetary_score ex_single_score = 1"
proof -
  have ne: "ex_single \<noteq> []" by (simp add: ex_single_def)
  have one: "\<forall>t \<in> set ex_single. customer_id t = ''A''"
    by (simp add: ex_single_def tx_def)
  from single_customer_scores [OF ne one ex_single_eval] ne one ex_single_eval
  show ?thesis by (auto simp: list_all_iff)
qed

end
